theory Spec2Isabelle
  imports Complex_Main "HOL-Library.Char_ord" "HOL-Library.List_Lexorder"
begin

section \<open>Numeric utilities (utils/format.ts)\<close>

text \<open>
  A value of type \<open>number | null\<close> is a \<open>real option\<close>: \<open>None\<close> is \<open>null\<close>
  (and \<open>undefined\<close> and the empty string, which every reader below treats alike),
  \<open>Some x\<close> is a finite number. Arithmetic is exact real arithmetic. The code computes
  in IEEE doubles, and differs from these definitions in two places: a result beyond
  the range of the doubles is an infinity there, which \<open>toNum\<close> turns into \<open>null\<close>
  (a quotient such as \<open>1e308 / 0.01\<close>); and a result within the rounding error of a
  tie of \<open>Math.round\<close> can fall on the other side of the tie. The statements about
  computed values below are made at concrete inputs, or for inputs that a hypothesis
  keeps away from both.
\<close>

text \<open>\<open>Math.round\<close>: the nearest integer, a tie going up.\<close>

definition Math_round :: "real \<Rightarrow> real" where
  "Math_round x = of_int \<lfloor>x + 1 / 2\<rfloor>"

text \<open>\<open>Math.pow\<close> on a non-negative base.\<close>

definition Math_pow :: "real \<Rightarrow> real \<Rightarrow> real" where
  "Math_pow x y = x powr y"

definition toNum :: "real option \<Rightarrow> real option" where
  "toNum v = (case v of None \<Rightarrow> None | Some n \<Rightarrow> Some n)"

definition round3 :: "real option \<Rightarrow> real option" where
  "round3 v = (case toNum v of None \<Rightarrow> None
     | Some n \<Rightarrow> Some (Math_round (n * 1000) / 1000))"

definition round4 :: "real option \<Rightarrow> real option" where
  "round4 v = (case toNum v of None \<Rightarrow> None
     | Some n \<Rightarrow> Some (Math_round (n * 10000) / 10000))"

definition floor01 :: "real option \<Rightarrow> real option" where
  "floor01 v = (case toNum v of None \<Rightarrow> None
     | Some n \<Rightarrow> Some (if n \<le> 0 then 1 / 100 else n))"

definition safeDiv :: "real option \<Rightarrow> real option \<Rightarrow> real option" where
  "safeDiv numerator denominator =
     (case toNum numerator of None \<Rightarrow> None
      | Some n \<Rightarrow> (case toNum denominator of None \<Rightarrow> None
          | Some d \<Rightarrow> if d = 0 then None else Some (n / d)))"

fun firstNonNull :: "real option list \<Rightarrow> real option" where
  "firstNonNull [] = None"
| "firstNonNull (None # vs) = firstNonNull vs"
| "firstNonNull (Some v # vs) = Some v"

section \<open>CAGR engine (calc_metrics/cagr.ts)\<close>

record YearRecord =
  fy :: int
  OpPS :: "real option"
  EPS :: "real option"
  FCFPS :: "real option"

datatype metricName = M_OpPS | M_EPS | M_FCFPS

text \<open>The property read \<open>series[i][metricName]\<close>.\<close>

fun metricOf :: "metricName \<Rightarrow> YearRecord \<Rightarrow> real option" where
  "metricOf M_OpPS r = OpPS r"
| "metricOf M_EPS r = EPS r"
| "metricOf M_FCFPS r = FCFPS r"

definition MIN_ROWS_5Y :: nat where "MIN_ROWS_5Y = 6"
definition MIN_ROWS_9Y :: nat where "MIN_ROWS_9Y = 10"
definition MIN_ROWS_10Y :: nat where "MIN_ROWS_10Y = 11"

datatype js_error = TypeError

record MetricResult =
  latest :: "real option"
  cagr5Y :: "real option"
  cagr9Y :: "real option"
  cagr10Y :: "real option"
  adjustedFlag :: bool

text \<open>The test \<open>raw !== null && raw <= 0\<close> on an unfloored value.\<close>

definition rawNonPositive :: "real option \<Rightarrow> bool" where
  "rawNonPositive raw = (case raw of None \<Rightarrow> False | Some x \<Rightarrow> x \<le> 0)"

text \<open>
  \<open>calculateMetricCAGRs\<close> holds the same block three times, for the pairs
  (\<open>MIN_ROWS_5Y\<close>, 5), (\<open>MIN_ROWS_9Y\<close>, 9) and (\<open>MIN_ROWS_10Y\<close>, 10). The block is
  written once here, with the pair as parameters: \<open>windowCagr\<close> is what it leaves in
  \<open>cagrNY\<close> and \<open>windowAdj\<close> what it leaves in \<open>adjNY\<close>; both start as
  \<open>null\<close> and \<open>false\<close> and stay so when the series is shorter than \<open>minRows\<close>.
\<close>

definition windowCagr :: "YearRecord list \<Rightarrow> metricName \<Rightarrow> nat \<Rightarrow> nat \<Rightarrow> real option" where
  "windowCagr series m minRows years =
     (if length series \<ge> minRows then
        (let lastIdx = length series - 1;
             endRaw = metricOf m (series ! lastIdx);
             startRaw = metricOf m (series ! (lastIdx - years));
             endAdj = floor01 endRaw;
             startAdj = floor01 startRaw
         in (case endAdj of None \<Rightarrow> None
             | Some e \<Rightarrow> (case startAdj of None \<Rightarrow> None
                 | Some s \<Rightarrow> if s > 0
                     then round4 (Some (Math_pow (e / s) (1 / real years) - 1))
                     else None)))
      else None)"

definition windowAdj :: "YearRecord list \<Rightarrow> metricName \<Rightarrow> nat \<Rightarrow> nat \<Rightarrow> bool" where
  "windowAdj series m minRows years =
     (if length series \<ge> minRows then
        (let lastIdx = length series - 1;
             endRaw = metricOf m (series ! lastIdx);
             startRaw = metricOf m (series ! (lastIdx - years))
         in rawNonPositive endRaw \<or> rawNonPositive startRaw)
      else False)"

text \<open>
  \<open>calculateMetricCAGRs\<close>. On an empty series \<open>series[-1]\<close> is \<open>undefined\<close> and
  the property read throws; its caller returns before the call in that case.
\<close>

definition calculateMetricCAGRs :: "YearRecord list \<Rightarrow> metricName \<Rightarrow> js_error + MetricResult" where
  "calculateMetricCAGRs series m =
     (if series = [] then Inl TypeError
      else
        (let lastIdx = length series - 1;
             latestRaw = metricOf m (series ! lastIdx);
             latestAdj = floor01 latestRaw;
             latestWasAdjusted = rawNonPositive latestRaw;
             adj5Y = windowAdj series m MIN_ROWS_5Y 5;
             adj9Y = windowAdj series m MIN_ROWS_9Y 9;
             adj10Y = windowAdj series m MIN_ROWS_10Y 10
         in Inr \<lparr> latest = latestAdj,
                  cagr5Y = windowCagr series m MIN_ROWS_5Y 5,
                  cagr9Y = windowCagr series m MIN_ROWS_9Y 9,
                  cagr10Y = windowCagr series m MIN_ROWS_10Y 10,
                  adjustedFlag = (latestWasAdjusted \<or> adj5Y \<or> adj9Y \<or> adj10Y) \<rparr>))"

section \<open>CAGR engine, script version (Calculations.gs)\<close>

text \<open>
  The script coerces with \<open>Number(v)\<close> and no test for \<open>null\<close> before it, and
  \<open>Number(null)\<close> is 0. On \<open>number | null\<close>:
\<close>

definition Number_js :: "real option \<Rightarrow> real" where
  "Number_js v = (case v of None \<Rightarrow> 0 | Some n \<Rightarrow> n)"

text \<open>\<open>toNum_\<close>, \<open>isFiniteNum_\<close> and \<open>floor01_\<close> of the script.\<close>

definition toNum_gs :: "real option \<Rightarrow> real option" where
  "toNum_gs v = (let n = Number_js v in Some n)"

definition isFiniteNum_gs :: "real option \<Rightarrow> bool" where
  "isFiniteNum_gs v = True"

definition floor01_gs :: "real option \<Rightarrow> real option" where
  "floor01_gs v = (let n = Number_js v in Some (if n \<le> 0 then 1 / 100 else n))"

text \<open>The comparison \<open>v <= 0\<close> of a \<open>number | null\<close>: \<open>null\<close> converts to 0.\<close>

definition le0_js :: "real option \<Rightarrow> bool" where
  "le0_js v = (Number_js v \<le> 0)"

text \<open>
  One CAGR block of \<open>computeCAGRs_\<close> (lines 98 to 129), written once for its three
  copies (6 rows and 5 years, 10 and 9, 11 and 10; the start row is
  \<open>arr[arr.length - minRows]\<close>). The script does not round.
\<close>

definition windowCagr_gs :: "YearRecord list \<Rightarrow> metricName \<Rightarrow> nat \<Rightarrow> nat \<Rightarrow> real option" where
  "windowCagr_gs arr m minRows years =
     (if length arr \<ge> minRows then
        (let endV = metricOf m (arr ! (length arr - 1));
             startV = metricOf m (arr ! (length arr - minRows));
             e = floor01_gs endV;
             s = floor01_gs startV
         in if isFiniteNum_gs e \<and> isFiniteNum_gs s \<and> Number_js s > 0
            then Some (Math_pow (Number_js e / Number_js s) (1 / real years) - 1)
            else None)
      else None)"

definition windowAdj_gs :: "YearRecord list \<Rightarrow> metricName \<Rightarrow> nat \<Rightarrow> bool" where
  "windowAdj_gs arr m minRows =
     (if length arr \<ge> minRows then
        (let endV = metricOf m (arr ! (length arr - 1));
             startV = metricOf m (arr ! (length arr - minRows))
         in (toNum_gs endV \<noteq> None \<and> le0_js endV) \<or> (toNum_gs startV \<noteq> None \<and> le0_js startV))
      else False)"

text \<open>
  The body of the loop over the metrics in \<open>computeCAGRs_\<close>, for a ticker whose
  array \<open>arr\<close> is not empty (the loop over the tickers skips an empty one).
\<close>

definition computeCAGRs_metric :: "YearRecord list \<Rightarrow> metricName \<Rightarrow> MetricResult option" where
  "computeCAGRs_metric arr m =
     (if arr = [] then None
      else
        (let last = arr ! (length arr - 1);
             latestRaw = toNum_gs (metricOf m last);
             latestAdj = floor01_gs latestRaw;
             latestWasAdj = (latestRaw \<noteq> None \<and> le0_js latestRaw);
             adj5 = windowAdj_gs arr m 6;
             adj9 = windowAdj_gs arr m 10;
             adj10 = windowAdj_gs arr m 11
         in Some \<lparr> latest = latestAdj,
                   cagr5Y = windowCagr_gs arr m 6 5,
                   cagr9Y = windowCagr_gs arr m 10 9,
                   cagr10Y = windowCagr_gs arr m 11 10,
                   adjustedFlag = (latestWasAdj \<or> adj5 \<or> adj9 \<or> adj10) \<rparr>))"

subsection \<open>Series used below\<close>

text \<open>The ACME series of the specification's example: operating income per share, 2015 to 2020.\<close>

definition acme :: "YearRecord list" where
  "acme = [\<lparr>fy = 2015, OpPS = Some (-2), EPS = None, FCFPS = None\<rparr>,
           \<lparr>fy = 2016, OpPS = Some (1 / 2), EPS = None, FCFPS = None\<rparr>,
           \<lparr>fy = 2017, OpPS = Some 1, EPS = None, FCFPS = None\<rparr>,
           \<lparr>fy = 2018, OpPS = Some (3 / 2), EPS = None, FCFPS = None\<rparr>,
           \<lparr>fy = 2019, OpPS = Some 2, EPS = None, FCFPS = None\<rparr>,
           \<lparr>fy = 2020, OpPS = Some 3, EPS = None, FCFPS = None\<rparr>]"

text \<open>
  Eleven years of operating income per share, 2010 to 2020. The latest value is 10.24.
  The year 2010, the start of the 10-year window, has a loss, floored to 0.01: the
  quotient is 1024, the tenth power of 2. The year 2011, the start of the 9-year
  window, has \<open>10.24 / 19683\<close>: the quotient is the ninth power of 3. The year 2015,
  the start of the 5-year window, has 0.32: the quotient is 32, the fifth power of 2.
\<close>

definition steps11 :: "YearRecord list" where
  "steps11 = map (\<lambda>(y, v). \<lparr>fy = y, OpPS = Some v, EPS = None, FCFPS = None\<rparr>)
     [(2010, -5), (2011, 256 / 492075), (2012, 1), (2013, 1), (2014, 1), (2015, 8 / 25),
      (2016, 1), (2017, 1), (2018, 1), (2019, 1), (2020, 256 / 25)]"

text \<open>
  Six years in which the operating income per share goes from 33554.432 to 28629.151:
  the quotient is the fifth power of \<open>31/32\<close>, and the growth is \<open>-0.03125\<close>, a tie
  of the rounding to four decimals.
\<close>

definition tie6 :: "YearRecord list" where
  "tie6 = map (\<lambda>(y, v). \<lparr>fy = y, OpPS = Some v, EPS = None, FCFPS = None\<rparr>)
     [(2015, 33554432 / 1000), (2016, 33000), (2017, 32000), (2018, 31000), (2019, 30000),
      (2020, 28629151 / 1000)]"

subsection \<open>Notions used in the statements\<close>

text \<open>
  The rounding that the specification describes in its section 4.1: \<open>round(v,
  decimals)\<close> rounds half away from zero at the given decimal count. It is the rule
  of the specification, not code of the repository, whose \<open>round4\<close> is above.
\<close>

definition spec_round :: "real \<Rightarrow> nat \<Rightarrow> real" where
  "spec_round v decimals = sgn v * of_int \<lfloor>\<bar>v\<bar> * 10 ^ decimals + 1 / 2\<rfloor> / 10 ^ decimals"

text \<open>
  \<open>settles q p k\<close>: the growth \<open>q^p - 1\<close> of the quotient \<open>q\<close> rounds to
  \<open>k / 10000\<close> with room to spare. The quotient is between \<open>10^-6\<close> and \<open>10^6\<close>,
  and the growth times 10000 is at least \<open>10^-6\<close> away from the two ties next to
  \<open>k\<close>. In that range the error of the double arithmetic of the code is below
  \<open>10^-9\<close>, so that \<open>Math.round\<close> gives \<open>k\<close> in the code as it does in exact
  arithmetic.
\<close>

definition settles :: "real \<Rightarrow> real \<Rightarrow> int \<Rightarrow> bool" where
  "settles q p k =
     (1 / 1000000 \<le> q \<and> q \<le> 1000000
      \<and> of_int k + 1 / 1000000 \<le> (q powr p - 1) * 10000 + 1 / 2
      \<and> (q powr p - 1) * 10000 + 1 / 2 \<le> of_int k + 1 - 1 / 1000000)"

text \<open>One year whose operating income per share is not a number (a cell such as \<open>N/A\<close>).\<close>

definition na_latest :: "YearRecord list" where
  "na_latest = [\<lparr>fy = 2020, OpPS = None, EPS = Some 1, FCFPS = Some 1\<rparr>]"

section \<open>Per-share builder (per_share/builder.ts)\<close>

subsection \<open>Strings and objects\<close>

text \<open>\<open>s.startsWith(p)\<close>, \<open>s.includes(p)\<close> (\<open>str_includes\<close>) and \<open>s.endsWith(p)\<close>.
  The builders call \<open>includes\<close> only; \<open>endsWith\<close> says what a suffix is.\<close>

fun startsWith :: "string \<Rightarrow> string \<Rightarrow> bool" where
  "startsWith s [] = True"
| "startsWith [] (p # ps) = False"
| "startsWith (c # cs) (p # ps) = (c = p \<and> startsWith cs ps)"

fun str_includes :: "string \<Rightarrow> string \<Rightarrow> bool" where
  "str_includes [] p = (p = [])"
| "str_includes (c # cs) p = (startsWith (c # cs) p \<or> str_includes cs p)"

definition endsWith :: "string \<Rightarrow> string \<Rightarrow> bool" where
  "endsWith s p = startsWith (rev s) (rev p)"

text \<open>
  An object used as a dictionary is an association list with one entry per key.
  \<open>withEntry k d f\<close> is the idiom \<open>if (!o[k]) o[k] = d; f(o[k])\<close>: the entry of \<open>k\<close>,
  created as \<open>d\<close> when it is missing, is changed by \<open>f\<close>.
\<close>

fun withEntry :: "'k \<Rightarrow> 'v \<Rightarrow> ('v \<Rightarrow> 'v) \<Rightarrow> ('k \<times> 'v) list \<Rightarrow> ('k \<times> 'v) list" where
  "withEntry k d f [] = [(k, f d)]"
| "withEntry k d f ((k', v) # kvs) =
     (if k' = k then (k', f v) # kvs else (k', v) # withEntry k d f kvs)"

subsection \<open>The long table and the index by ticker and year\<close>

text \<open>
  A row of the long table as \<open>readLongTable\<close> returns it: \<open>FiscalYear\<close> is
  \<open>toInt\<close> of the cell and \<open>Value\<close> is \<open>toNum\<close> of the cell, both \<open>null\<close> when the
  cell is not a number.
\<close>

record LongRow =
  Ticker :: string
  FiscalYear :: "int option"
  Section :: string
  Field :: string
  Value :: "real option"

text \<open>
  \<open>YearData\<close>: the fields of \<open>is\<close> and of \<open>bs\<close>. A field that was never assigned
  (\<open>undefined\<close>) and one that holds \<open>null\<close> are both \<open>None\<close>: \<open>toNum\<close> and
  \<open>firstNonNull\<close>, the only readers, do not tell them apart.
\<close>

record YearData =
  is_Revenue :: "real option"
  is_GrossProfit :: "real option"
  is_OperatingIncome :: "real option"
  is_NetIncome :: "real option"
  is_SharesDiluted :: "real option"
  bs_Equity :: "real option"
  bs_Debt :: "real option"
  bs_SharesDiluted :: "real option"
  bs_EquityAlt1 :: "real option"
  bs_EquityAlt2 :: "real option"
  bs_EquityAlt3 :: "real option"
  bs_DebtAlt1 :: "real option"
  bs_DebtAlt2 :: "real option"

text \<open>The literal \<open>{ is: {}, bs: {} }\<close>.\<close>

definition emptyYearData :: YearData where
  "emptyYearData = \<lparr> is_Revenue = None, is_GrossProfit = None, is_OperatingIncome = None,
     is_NetIncome = None, is_SharesDiluted = None, bs_Equity = None, bs_Debt = None,
     bs_SharesDiluted = None, bs_EquityAlt1 = None, bs_EquityAlt2 = None, bs_EquityAlt3 = None,
     bs_DebtAlt1 = None, bs_DebtAlt2 = None \<rparr>"

type_synonym TickerYearData = "(string \<times> (int \<times> YearData) list) list"

text \<open>
  The chain of tests on the section and the field (\<open>FINANCIAL_SECTIONS\<close> and
  \<open>PER_SHARE_FIELDS\<close> of globals.ts), storing the value in the year's data.
\<close>

definition bucket :: "string \<Rightarrow> string \<Rightarrow> real option \<Rightarrow> YearData \<Rightarrow> YearData" where
  "bucket section field v yearData =
     (if section = ''Income_Statement'' then
        (if field = ''Revenue'' then yearData\<lparr>is_Revenue := v\<rparr>
         else if field = ''GrossProfit'' then yearData\<lparr>is_GrossProfit := v\<rparr>
         else if field = ''OperatingIncome'' then yearData\<lparr>is_OperatingIncome := v\<rparr>
         else if field = ''NetIncome'' then yearData\<lparr>is_NetIncome := v\<rparr>
         else if field = ''SharesDiluted'' then yearData\<lparr>is_SharesDiluted := v\<rparr>
         else yearData)
      else if section = ''Balance_Sheet'' then
        (if field = ''TotalStockholdersEquity'' then yearData\<lparr>bs_Equity := v\<rparr>
         else if field = ''TotalDebt'' then yearData\<lparr>bs_Debt := v\<rparr>
         else if field = ''SharesDiluted'' then yearData\<lparr>bs_SharesDiluted := v\<rparr>
         else if field = ''TotalStockholderEquity'' then yearData\<lparr>bs_EquityAlt1 := v\<rparr>
         else if field = ''TotalEquity'' then yearData\<lparr>bs_EquityAlt2 := v\<rparr>
         else if field = ''StockholdersEquity'' then yearData\<lparr>bs_EquityAlt3 := v\<rparr>
         else if field = ''TotalLiab'' then yearData\<lparr>bs_DebtAlt1 := v\<rparr>
         else if field = ''TotalLiabilities'' then yearData\<lparr>bs_DebtAlt2 := v\<rparr>
         else yearData)
      else yearData)"

text \<open>The normalisation of the ticker in \<open>indexByTickerYear\<close>.\<close>

definition normTicker :: "string \<Rightarrow> string" where
  "normTicker t = (if str_includes t ''.PSE'' then t else t @ ''.PSE'')"

text \<open>
  One turn of the loop of \<open>indexByTickerYear\<close>. A row with an empty ticker or a
  fiscal year that is \<open>null\<close> or 0 is skipped.
\<close>

definition indexRow :: "TickerYearData \<Rightarrow> LongRow \<Rightarrow> TickerYearData" where
  "indexRow indexed row =
     (case FiscalYear row of
        None \<Rightarrow> indexed
      | Some year \<Rightarrow>
          if Ticker row = [] \<or> year = 0 then indexed
          else withEntry (normTicker (Ticker row)) []
                 (withEntry year emptyYearData (bucket (Section row) (Field row) (Value row)))
                 indexed)"

definition indexByTickerYear :: "LongRow list \<Rightarrow> TickerYearData" where
  "indexByTickerYear rows = foldl indexRow [] rows"

subsection \<open>Valid shares and the rows of the output\<close>

text \<open>
  \<open>getValidShares\<close>. The test \<open>isShares && isShares > 0\<close> is false for \<open>null\<close>
  and for 0.
\<close>

definition getValidShares :: "YearData \<Rightarrow> real" where
  "getValidShares d =
     (let isShares = toNum (is_SharesDiluted d);
          bsShares = toNum (bs_SharesDiluted d);
          shares = (case isShares of
                      None \<Rightarrow> bsShares
                    | Some a \<Rightarrow> if a \<noteq> 0 \<and> a > 0 then Some a else bsShares)
      in (case shares of
            None \<Rightarrow> 0
          | Some s \<Rightarrow> if s \<noteq> 0 \<and> s > 0 then s else 0))"

text \<open>A row of the output, by the columns of \<open>PER_SHARE_CONFIG.HEADERS\<close>; \<open>None\<close> is
  \<open>null\<close>, which the sheet shows as a blank cell.\<close>

record PerShareRow =
  out_Ticker :: string
  out_FiscalYear :: int
  RevenuePerShare :: "real option"
  GrossProfitPerShare :: "real option"
  OperatingIncomePerShare :: "real option"
  NetIncomePerShare :: "real option"
  EquityPerShare :: "real option"
  DebtToEquity :: "real option"

definition calculateRowMetrics :: "string \<Rightarrow> int \<Rightarrow> real \<Rightarrow> YearData \<Rightarrow> PerShareRow" where
  "calculateRowMetrics ticker year shares d =
     (let revenue = toNum (is_Revenue d);
          grossProfit = toNum (is_GrossProfit d);
          operatingIncome = toNum (is_OperatingIncome d);
          netIncome = toNum (is_NetIncome d);
          equityRaw = firstNonNull [bs_Equity d, bs_EquityAlt1 d, bs_EquityAlt2 d, bs_EquityAlt3 d];
          equity = toNum equityRaw;
          debtRaw = firstNonNull [bs_Debt d, bs_DebtAlt1 d, bs_DebtAlt2 d];
          debt = toNum debtRaw;
          revenuePS = safeDiv revenue (Some shares);
          gpPS = safeDiv grossProfit (Some shares);
          opPS = safeDiv operatingIncome (Some shares);
          niPS = safeDiv netIncome (Some shares);
          equityPS = safeDiv equity (Some shares);
          debtToEquity = safeDiv debt equity
      in \<lparr> out_Ticker = ticker, out_FiscalYear = year,
           RevenuePerShare = round3 revenuePS,
           GrossProfitPerShare = round3 gpPS,
           OperatingIncomePerShare = round3 opPS,
           NetIncomePerShare = round3 niPS,
           EquityPerShare = round3 equityPS,
           DebtToEquity = round3 debtToEquity \<rparr>)"

definition MAX_YEARS_PER_TICKER :: nat where "MAX_YEARS_PER_TICKER = 10"

text \<open>
  The loop over the years of a ticker, latest first: a year is kept when its shares are
  valid, and the loop stops at ten kept years. The years are the keys of the ticker's
  object and each is looked up in it, so the loop runs over the entries.
\<close>

fun pickValid :: "(int \<times> YearData) list \<Rightarrow> (int \<times> real \<times> YearData) list
    \<Rightarrow> (int \<times> real \<times> YearData) list" where
  "pickValid [] validYears = validYears"
| "pickValid ((year, d) # rest) validYears =
     (let shares = getValidShares d;
          validYears' = (if shares > 0 then validYears @ [(year, shares, d)] else validYears)
      in if length validYears' \<ge> MAX_YEARS_PER_TICKER then validYears'
         else pickValid rest validYears')"

text \<open>The rows of one ticker: years sorted descending, picked, sorted ascending.\<close>

definition tickerRows :: "string \<Rightarrow> (int \<times> YearData) list \<Rightarrow> PerShareRow list" where
  "tickerRows ticker byYear =
     (let years = rev (sort_key fst byYear);
          validYears = pickValid years [];
          sorted = sort_key fst validYears
      in map (\<lambda>(year, shares, d). calculateRowMetrics ticker year shares d) sorted)"

text \<open>\<open>calculatePerShareMetrics\<close>: the tickers in the order of \<open>sort()\<close>.\<close>

definition calculatePerShareMetrics :: "TickerYearData \<Rightarrow> PerShareRow list" where
  "calculatePerShareMetrics byTickerYear =
     concat (map (\<lambda>(ticker, byYear). tickerRows ticker byYear) (sort_key fst byTickerYear))"

text \<open>The rows that \<open>buildPerShareFull\<close> writes, from the rows it read.\<close>

definition buildPerShareFull :: "LongRow list \<Rightarrow> PerShareRow list" where
  "buildPerShareFull longTable = calculatePerShareMetrics (indexByTickerYear longTable)"

section \<open>Per-share builder, script version (PerShare.gs)\<close>

text \<open>
  In the script a cell that is blank or not a number reads as 0 (\<open>_num\<close>), a failed
  division is 0 (\<open>_ps_safeDiv_\<close>) and so is a missing fallback (\<open>_firstNonNull_\<close>).
  Its names start with an underscore, which is dropped here, and \<open>_gs\<close> is added where
  the TypeScript has the same name. The functions are first given on the finite
  numbers, as \<open>real\<close> and \<open>real option\<close>. \<open>_num\<close> has no test for an infinite
  number, which \<open>toNum\<close> has: \<open>_num\<close> and \<open>_ps_validShares_\<close> are given again
  further down on all the doubles (\<open>num_gs_ext\<close> and \<open>ps_validShares_ext\<close>), where
  the two builders part.
\<close>

definition num_gs :: "real option \<Rightarrow> real" where
  "num_gs v = (case v of None \<Rightarrow> 0 | Some n \<Rightarrow> n)"

definition ps_safeDiv :: "real \<Rightarrow> real \<Rightarrow> real" where
  "ps_safeDiv n den = (if den \<noteq> 0 then n / den else 0)"

definition ps_r3 :: "real \<Rightarrow> real" where
  "ps_r3 x = Math_round ((if x = 0 then 0 else x) * 1000) / 1000"

fun firstNonNull_gs :: "real option list \<Rightarrow> real" where
  "firstNonNull_gs [] = 0"
| "firstNonNull_gs (None # vs) = firstNonNull_gs vs"
| "firstNonNull_gs (Some v # vs) = v"

definition ps_validShares :: "YearData \<Rightarrow> real" where
  "ps_validShares row =
     (let a = num_gs (is_SharesDiluted row);
          b = num_gs (bs_SharesDiluted row);
          s = (if a > 0 then a else b)
      in if s \<noteq> 0 \<and> s > 0 then s else 0)"

text \<open>The row that the inner loop of \<open>buildPerShare_Full\<close> pushes.\<close>

definition ps_row :: "string \<Rightarrow> int \<Rightarrow> real \<Rightarrow> YearData \<Rightarrow> PerShareRow" where
  "ps_row tkr y shares row =
     (let revn = num_gs (is_Revenue row);
          gp = num_gs (is_GrossProfit row);
          opi = num_gs (is_OperatingIncome row);
          ni = num_gs (is_NetIncome row);
          eqRaw = firstNonNull_gs [bs_Equity row, bs_EquityAlt1 row, bs_EquityAlt2 row,
                    bs_EquityAlt3 row];
          debtRaw = firstNonNull_gs [bs_Debt row, bs_DebtAlt1 row, bs_DebtAlt2 row];
          eq = num_gs (Some eqRaw);
          debt = num_gs (Some debtRaw);
          revenuePS = ps_safeDiv revn shares;
          gpPS = ps_safeDiv gp shares;
          opiPS = ps_safeDiv opi shares;
          niPS = ps_safeDiv ni shares;
          eqPS = ps_safeDiv eq shares;
          dte = ps_safeDiv debt eq
      in \<lparr> out_Ticker = tkr, out_FiscalYear = y,
           RevenuePerShare = Some (ps_r3 revenuePS),
           GrossProfitPerShare = Some (ps_r3 gpPS),
           OperatingIncomePerShare = Some (ps_r3 opiPS),
           NetIncomePerShare = Some (ps_r3 niPS),
           EquityPerShare = Some (ps_r3 eqPS),
           DebtToEquity = Some (ps_r3 dte) \<rparr>)"

fun ps_pick :: "(int \<times> YearData) list \<Rightarrow> (int \<times> real \<times> YearData) list
    \<Rightarrow> (int \<times> real \<times> YearData) list" where
  "ps_pick [] picked = picked"
| "ps_pick ((y, row) # rest) picked =
     (let shares = ps_validShares row;
          picked' = (if shares > 0 then picked @ [(y, shares, row)] else picked)
      in if length picked' \<ge> 10 then picked' else ps_pick rest picked')"

definition ps_tickerRows :: "string \<Rightarrow> (int \<times> YearData) list \<Rightarrow> PerShareRow list" where
  "ps_tickerRows tkr byYear =
     (let years = rev (sort_key fst byYear);
          picked = ps_pick years []
      in map (\<lambda>(y, shares, row). ps_row tkr y shares row) (sort_key fst picked))"

text \<open>
  The rows of the long table as \<open>_ps_readLongTable_\<close> makes them. With a \<open>LongRow\<close>
  whose \<open>Value\<close> is the number in the value cell, \<open>None\<close> for a cell that is blank
  or holds no number: the script stores \<open>_num\<close> of the cell, which is 0 for such a
  cell and never \<open>null\<close>.
\<close>

definition ps_readLongTable :: "LongRow list \<Rightarrow> LongRow list" where
  "ps_readLongTable rows = map (\<lambda>r. r\<lparr>Value := Some (num_gs (Value r))\<rparr>) rows"

text \<open>
  The rows that \<open>buildPerShare_Full\<close> writes. \<open>_ps_indexByTickerYear_\<close> is
  \<open>indexByTickerYear\<close> with the tests on the fallback fields in another order.
\<close>

definition buildPerShare_Full :: "LongRow list \<Rightarrow> PerShareRow list" where
  "buildPerShare_Full cells =
     (let data = ps_readLongTable cells
      in concat (map (\<lambda>(tkr, byYear). ps_tickerRows tkr byYear)
           (sort_key fst (indexByTickerYear data))))"

subsection \<open>The share count on all the doubles\<close>

text \<open>
  A double by its value. \<open>Number(v)\<close> of a cell can be any of them: a text
  \<open>Infinity\<close> in a cell converts to the infinite number, a text that is no number
  to \<open>NaN\<close>. A value \<open>v\<close> is given as \<open>None\<close> when it is \<open>undefined\<close>,
  \<open>null\<close> or the empty string, else as \<open>Some\<close> of \<open>Number(v)\<close>.
\<close>

datatype double = Fin real | PosInf | NegInf | NaN

text \<open>The tests \<open>x > 0\<close> and the truthiness of a number.\<close>

fun gt0 :: "double \<Rightarrow> bool" where
  "gt0 (Fin x) = (0 < x)"
| "gt0 PosInf = True"
| "gt0 NegInf = False"
| "gt0 NaN = False"

fun truthy_double :: "double \<Rightarrow> bool" where
  "truthy_double (Fin x) = (x \<noteq> 0)"
| "truthy_double NaN = False"
| "truthy_double PosInf = True"
| "truthy_double NegInf = True"

text \<open>\<open>_num\<close>: 0 for \<open>NaN\<close> and for a missing value, else the number as it is.\<close>

definition num_gs_ext :: "double option \<Rightarrow> double" where
  "num_gs_ext v = (case v of None \<Rightarrow> Fin 0 | Some NaN \<Rightarrow> Fin 0 | Some n \<Rightarrow> n)"

text \<open>\<open>_ps_validShares_\<close>, on the two share counts of the year.\<close>

definition ps_validShares_ext :: "double option \<Rightarrow> double option \<Rightarrow> double" where
  "ps_validShares_ext isShares bsShares =
     (let a = num_gs_ext isShares;
          b = num_gs_ext bsShares;
          s = (if gt0 a then a else b)
      in if truthy_double s \<and> gt0 s then s else Fin 0)"

text \<open>\<open>toNum\<close> of utils/format.ts: \<open>null\<close> for a missing value and for a number
  that is not finite.\<close>

definition toNum_ext :: "double option \<Rightarrow> real option" where
  "toNum_ext v = (case v of Some (Fin x) \<Rightarrow> Some x | _ \<Rightarrow> None)"

subsection \<open>Tables used below\<close>

text \<open>
  A ticker with two years: 2019 has no valid shares anywhere, 2020 has shares in the
  income statement, a revenue, and neither equity nor debt.
\<close>

definition sampleLong :: "LongRow list" where
  "sampleLong =
     [\<lparr>Ticker = ''JFC'', FiscalYear = Some 2020, Section = ''Income_Statement'',
        Field = ''SharesDiluted'', Value = Some 100\<rparr>,
      \<lparr>Ticker = ''JFC'', FiscalYear = Some 2020, Section = ''Income_Statement'',
        Field = ''Revenue'', Value = Some 250\<rparr>,
      \<lparr>Ticker = ''JFC'', FiscalYear = Some 2019, Section = ''Income_Statement'',
        Field = ''SharesDiluted'', Value = Some 0\<rparr>,
      \<lparr>Ticker = ''JFC'', FiscalYear = Some 2019, Section = ''Balance_Sheet'',
        Field = ''SharesDiluted'', Value = None\<rparr>]"

text \<open>
  Three tickers with 100 shares each in 2020: \<open>JFC\<close>, which has no suffix;
  \<open>ALI.PSE\<close>, which has it; and \<open>A.PSEB\<close>, which contains the letters of the
  suffix and does not end with them.
\<close>

definition tickersLong :: "LongRow list" where
  "tickersLong =
     map (\<lambda>t. \<lparr>Ticker = t, FiscalYear = Some 2020, Section = ''Income_Statement'',
                Field = ''SharesDiluted'', Value = Some 100\<rparr>)
       [''JFC'', ''ALI.PSE'', ''A.PSEB'']"

text \<open>The data of a year with 100 shares and nothing else.\<close>

definition sharesOnly :: YearData where
  "sharesOnly = emptyYearData\<lparr>is_SharesDiluted := Some 100\<rparr>"

text \<open>Every key occurs once, in the index and in the object of each ticker.\<close>

definition wellKeyed :: "TickerYearData \<Rightarrow> bool" where
  "wellKeyed idx = (distinct (map fst idx) \<and> list_all (\<lambda>e. distinct (map fst (snd e))) idx)"

section \<open>Values, strings and sheets\<close>

text \<open>
  A string is the list of its code units, each below 256 (the separator of the key
  parts, code 166, and the no-break space, code 160, are among them).

  The values that cells and object properties hold. A number, a date and any other
  object or function are carried by the text that \<open>String(v)\<close> returns for them
  (\<open>Num ''0.45''\<close>), which is all that the upsert code reads of them; \<open>Null\<close> stands
  for \<open>null\<close> and for \<open>undefined\<close>, which the code below never tells apart.
\<close>

datatype jsval = Null | Bool bool | Num string | Str string | DateV string | Obj string

text \<open>Truthiness, as \<open>v || ''\<close> and \<open>!v\<close> test it.\<close>

fun truthy :: "jsval \<Rightarrow> bool" where
  "truthy Null = False"
| "truthy (Bool b) = b"
| "truthy (Num s) = (s \<noteq> ''0'' \<and> s \<noteq> ''NaN'')"
| "truthy (Str s) = (s \<noteq> [])"
| "truthy (DateV s) = True"
| "truthy (Obj s) = True"

fun String_js :: "jsval \<Rightarrow> string" where
  "String_js Null = ''null''"
| "String_js (Bool b) = (if b then ''true'' else ''false'')"
| "String_js (Num s) = s"
| "String_js (Str s) = s"
| "String_js (DateV s) = s"
| "String_js (Obj s) = s"

text \<open>The expression \<open>v || ''\<close>.\<close>

definition orEmpty :: "jsval \<Rightarrow> jsval" where
  "orEmpty v = (if truthy v then v else Str [])"

definition nullToEmpty :: "jsval \<Rightarrow> jsval" where
  "nullToEmpty v = (case v of Null \<Rightarrow> Str [] | _ \<Rightarrow> v)"

text \<open>A list without the elements at its end that satisfy \<open>P\<close>.\<close>

definition dropTrailing :: "('a \<Rightarrow> bool) \<Rightarrow> 'a list \<Rightarrow> 'a list" where
  "dropTrailing P xs = rev (dropWhile P (rev xs))"

text \<open>
  \<open>s.trim()\<close>. Of the white space and line terminators that it strips, these are the
  ones below 256: the space, tab, line feed, vertical tab, form feed, carriage return
  and the no-break space.
\<close>

definition isSpace :: "char \<Rightarrow> bool" where
  "isSpace c = (c = CHR '' '' \<or> c = CHR 0x09 \<or> c = CHR 0x0A \<or> c = CHR 0x0B \<or> c = CHR 0x0C
     \<or> c = CHR 0x0D \<or> c = CHR 0xA0)"

definition trim :: "string \<Rightarrow> string" where
  "trim s = dropTrailing isSpace (dropWhile isSpace s)"

text \<open>\<open>parts.join(sep)\<close>.\<close>

fun join :: "string \<Rightarrow> string list \<Rightarrow> string" where
  "join sep [] = []"
| "join sep [p] = p"
| "join sep (p # q # ps) = p @ sep @ join sep (q # ps)"

text \<open>
  The array read \<open>row[i]\<close>, \<open>undefined\<close> past the end, and the array write
  \<open>row[i] = v\<close>, which extends the array when \<open>i\<close> is past the end.
\<close>

definition cellAt :: "jsval list \<Rightarrow> nat \<Rightarrow> jsval" where
  "cellAt row i = (if i < length row then row ! i else Null)"

definition jsSet :: "jsval list \<Rightarrow> nat \<Rightarrow> jsval \<Rightarrow> jsval list" where
  "jsSet row i v =
     (if i < length row then row[i := v] else row @ replicate (i - length row) Null @ [v])"

text \<open>
  The properties that every plain object inherits from \<open>Object.prototype\<close>, and the
  values they read as: \<open>__proto__\<close> is the prototype, an object; the others are
  native functions, whose text names them (\<open>constructor\<close> is the function
  \<open>Object\<close>).
\<close>

definition inheritedNames :: "string list" where
  "inheritedNames = [''constructor'', ''__defineGetter__'', ''__defineSetter__'',
     ''hasOwnProperty'', ''__lookupGetter__'', ''__lookupSetter__'', ''isPrototypeOf'',
     ''propertyIsEnumerable'', ''toString'', ''valueOf'', ''__proto__'', ''toLocaleString'']"

definition inheritedValue :: "string \<Rightarrow> jsval" where
  "inheritedValue name =
     (if name = ''__proto__'' then Obj ''[object Object]''
      else Obj (''function '' @ (if name = ''constructor'' then ''Object'' else name)
                  @ ''() { [native code] }''))"

text \<open>
  A plain object with its own properties in order. The read \<open>obj[k]\<close> gives the own
  property, else the inherited one, else \<open>undefined\<close>.
\<close>

type_synonym jsobj = "(string \<times> jsval) list"

definition getProp :: "jsobj \<Rightarrow> string \<Rightarrow> jsval" where
  "getProp obj k =
     (case map_of obj k of
        Some v \<Rightarrow> v
      | None \<Rightarrow> if k \<in> set inheritedNames then inheritedValue k else Null)"

definition hasOwn :: "jsobj \<Rightarrow> string \<Rightarrow> bool" where
  "hasOwn obj k = (map_of obj k \<noteq> None)"

text \<open>
  A sheet is the grid of its cells, row by row; a cell outside the stored rows is blank,
  and a blank cell reads as the empty string. The methods of the spreadsheet service
  that the upsert code calls: \<open>getLastRow\<close> and \<open>getLastColumn\<close> are the position of
  the last row and of the last column with content; \<open>getRange(1, 1, r, c).getValues()\<close>
  is the grid of \<open>r\<close> rows and \<open>c\<close> columns; \<open>setValues\<close> stores a blank for \<open>null\<close>.
\<close>

type_synonym sheet = "jsval list list"

definition blank :: jsval where
  "blank = Str []"

definition isBlank :: "jsval \<Rightarrow> bool" where
  "isBlank v = (v = Str [])"

definition getLastRow :: "sheet \<Rightarrow> nat" where
  "getLastRow sh = length (dropTrailing (list_all isBlank) sh)"

definition getLastColumn :: "sheet \<Rightarrow> nat" where
  "getLastColumn sh = foldr (\<lambda>row n. max (length (dropTrailing isBlank row)) n) sh 0"

definition padTo :: "nat \<Rightarrow> jsval list \<Rightarrow> jsval list" where
  "padTo n row = row @ replicate (n - length row) blank"

definition asCell :: "jsval \<Rightarrow> jsval" where
  "asCell v = (case v of Null \<Rightarrow> blank | _ \<Rightarrow> v)"

definition getValues :: "sheet \<Rightarrow> nat \<Rightarrow> nat \<Rightarrow> jsval list list" where
  "getValues sh numRows numCols =
     take numRows (map (\<lambda>row. take numCols (padTo numCols (map asCell row))) sh
                   @ replicate numRows (replicate numCols blank))"

section \<open>Upsert by one key (utils/upsert.ts, upsertByKey)\<close>

text \<open>The header names read from the first row: \<open>String(v || '').trim()\<close> of each cell.\<close>

definition readHeader :: "jsval list \<Rightarrow> string list" where
  "readHeader row = map (\<lambda>v. trim (String_js (orEmpty v))) row"

text \<open>
  A header index is a plain object (\<open>{}\<close>) from names to column numbers. The map holds
  its own properties. What a read \<open>headerIndex[col]\<close> gives is a \<open>colref\<close>: the
  number of an own property, else the inherited value (a function or an object, for the
  names of \<open>inheritedNames\<close>), else \<open>undefined\<close>. The test \<open>col in headerIndex\<close> is
  true for own and for inherited properties. The write \<open>index[name] = i\<close> makes an own
  property, but for the name \<open>__proto__\<close>, whose setter ignores a number.
\<close>

datatype colref = Undefined | Index nat | Inherited

definition indexGet :: "(string \<rightharpoonup> nat) \<Rightarrow> string \<Rightarrow> colref" where
  "indexGet index name =
     (case index name of
        Some i \<Rightarrow> Index i
      | None \<Rightarrow> if name \<in> set inheritedNames then Inherited else Undefined)"

definition indexHas :: "(string \<rightharpoonup> nat) \<Rightarrow> string \<Rightarrow> bool" where
  "indexHas index name = (index name \<noteq> None \<or> name \<in> set inheritedNames)"

definition indexSet :: "(string \<rightharpoonup> nat) \<Rightarrow> string \<Rightarrow> nat \<Rightarrow> (string \<rightharpoonup> nat)" where
  "indexSet index name i = (if name = ''__proto__'' then index else index(name \<mapsto> i))"

text \<open>
  The array read \<open>row[ref]\<close> and the array write \<open>row[ref] = v\<close> with a \<open>colref\<close>.
  A function, an object or \<open>undefined\<close> as the subscript names a property that is not
  a cell: the read is \<open>undefined\<close>, and the write leaves the cells as they are.
\<close>

definition getAt :: "jsval list \<Rightarrow> colref \<Rightarrow> jsval" where
  "getAt row ref = (case ref of Index i \<Rightarrow> cellAt row i | _ \<Rightarrow> Null)"

definition setAt :: "jsval list \<Rightarrow> colref \<Rightarrow> jsval \<Rightarrow> jsval list" where
  "setAt row ref v = (case ref of Index i \<Rightarrow> jsSet row i v | _ \<Rightarrow> row)"

text \<open>
  \<open>buildHeaderIndex\<close> (utils/sheets.ts): \<open>index[String(h).trim()] = i\<close> for each
  header in turn, so the last column of a name is the one kept.
\<close>

fun buildHeaderIndexFrom :: "nat \<Rightarrow> string list \<Rightarrow> (string \<rightharpoonup> nat) \<Rightarrow> (string \<rightharpoonup> nat)" where
  "buildHeaderIndexFrom i [] index = index"
| "buildHeaderIndexFrom i (h # hs) index = buildHeaderIndexFrom (Suc i) hs (indexSet index (trim h) i)"

definition buildHeaderIndex :: "string list \<Rightarrow> (string \<rightharpoonup> nat)" where
  "buildHeaderIndex headers = buildHeaderIndexFrom 0 headers Map.empty"

text \<open>
  The step \<open>if (!(col in headerIndex)) { header.push(col); headerIndex[col] =
  header.length - 1; }\<close> on the pair of the header and its index. For an inherited name
  the test finds the name in the index, and no column is added.
\<close>

definition ensureColumn :: "string \<Rightarrow> string list \<times> (string \<rightharpoonup> nat)
    \<Rightarrow> string list \<times> (string \<rightharpoonup> nat)" where
  "ensureColumn col hi =
     (case hi of (header, headerIndex) \<Rightarrow>
        if \<not> indexHas headerIndex col
        then (header @ [col], indexSet headerIndex col (length header))
        else (header, headerIndex))"

text \<open>The write list: the key column is put in front when it is not in the list.\<close>

definition writeList :: "string \<Rightarrow> string list \<Rightarrow> string list" where
  "writeList keyColumn columnsToWrite =
     (if keyColumn \<in> set columnsToWrite then columnsToWrite else keyColumn # columnsToWrite)"

text \<open>
  The table that \<open>upsertByKey\<close> reads: all rows of the sheet, the header row first;
  nothing when the sheet is empty.
\<close>

definition readAll :: "sheet \<Rightarrow> jsval list list" where
  "readAll sh =
     (let lastRow = getLastRow sh;
          lastCol = max 1 (getLastColumn sh)
      in if lastRow > 0 then getValues sh lastRow lastCol else [])"

text \<open>The header names of a sheet, none when the sheet is empty.\<close>

definition sheetHeader :: "sheet \<Rightarrow> string list" where
  "sheetHeader sh =
     (let allValues = readAll sh
      in if allValues = [] then [] else readHeader (hd allValues))"

text \<open>
  The header and its index after the key column and, when asked for, the columns to
  write were added. The header is the array \<open>header\<close> of the function, made by
  \<open>map\<close> from the first row: the first row of \<open>data\<close> is another array.
\<close>

definition upsertHeader :: "sheet \<Rightarrow> string \<Rightarrow> string list \<Rightarrow> bool
    \<Rightarrow> string list \<times> (string \<rightharpoonup> nat)" where
  "upsertHeader sh keyColumn columnsToWrite appendMissingColumns =
     (let header = sheetHeader sh;
          hi = ensureColumn keyColumn (header, buildHeaderIndex header)
      in if appendMissingColumns then fold ensureColumn (writeList keyColumn columnsToWrite) hi
         else hi)"

text \<open>The map from key to row index, over the rows after the first.\<close>

definition keyOf :: "jsval \<Rightarrow> string" where
  "keyOf v = trim (String_js (orEmpty v))"

fun indexRows :: "colref \<Rightarrow> nat \<Rightarrow> jsval list list \<Rightarrow> (string \<rightharpoonup> nat) \<Rightarrow> (string \<rightharpoonup> nat)" where
  "indexRows keyColIdx i [] rowByKey = rowByKey"
| "indexRows keyColIdx i (row # rows) rowByKey =
     (let key = keyOf (getAt row keyColIdx)
      in indexRows keyColIdx (Suc i) rows (if key \<noteq> [] then rowByKey(key \<mapsto> i) else rowByKey))"

text \<open>The loop over the columns to write, on the row of the object.\<close>

fun writeCols :: "(string \<rightharpoonup> nat) \<Rightarrow> jsobj \<Rightarrow> string list \<Rightarrow> jsval list \<Rightarrow> jsval list" where
  "writeCols headerIndex obj [] row = row"
| "writeCols headerIndex obj (col # cols) row =
     writeCols headerIndex obj cols
       (let colIdx = indexGet headerIndex col
        in if colIdx \<noteq> Undefined \<and> hasOwn obj col
           then setAt row colIdx (nullToEmpty (getProp obj col))
           else row)"

text \<open>
  One incoming object: skipped when its key is empty; a row is appended for a key that
  is not in the map, and the map learns the key; then the columns are written.
\<close>

definition upsertObject :: "nat \<Rightarrow> (string \<rightharpoonup> nat) \<Rightarrow> string \<Rightarrow> colref \<Rightarrow> string list \<Rightarrow> jsobj
    \<Rightarrow> jsval list list \<times> (string \<rightharpoonup> nat) \<Rightarrow> jsval list list \<times> (string \<rightharpoonup> nat)" where
  "upsertObject headerLength headerIndex keyColumn keyColIdx columnsToWrite obj st =
     (case st of (data, rowByKey) \<Rightarrow>
        (let key = keyOf (getProp obj keyColumn)
         in if key = [] then (data, rowByKey)
            else
              (case rowByKey key of
                 None \<Rightarrow>
                   (let rowIdx = length data;
                        newRow = setAt (replicate headerLength blank) keyColIdx (Str key)
                    in (data @ [writeCols headerIndex obj columnsToWrite newRow],
                        rowByKey(key \<mapsto> rowIdx)))
               | Some rowIdx \<Rightarrow>
                   (if rowIdx < length data
                    then data[rowIdx := writeCols headerIndex obj columnsToWrite (data ! rowIdx)]
                    else data,
                    rowByKey))))"

text \<open>
  \<open>upsertByKey\<close>: the sheet after the call. The rows of the table all have the length
  of the header when they are written back, after \<open>clearContents\<close>, so the sheet then
  holds the table. (A header without any name has no range to write to, and
  \<open>getRange\<close> throws; that needs an empty sheet and a key column with an inherited
  name, for any other key column is pushed on the header. This definition has no value
  for the exception, and nothing below is stated for such a call.)
\<close>

definition upsertByKey :: "sheet \<Rightarrow> string \<Rightarrow> string list \<Rightarrow> jsobj list \<Rightarrow> bool \<Rightarrow> sheet" where
  "upsertByKey sh keyColumn columnsToWrite incomingObjects appendMissingColumns =
     (if incomingObjects = [] then sh
      else
        (let cols = writeList keyColumn columnsToWrite;
             hi = upsertHeader sh keyColumn columnsToWrite appendMissingColumns;
             header = fst hi;
             headerIndex = snd hi;
             data = map (padTo (length header)) (readAll sh);
             keyColIdx = indexGet headerIndex keyColumn;
             rowByKey = indexRows keyColIdx 1 (tl data) Map.empty
         in map (map asCell)
              (fst (fold (upsertObject (length header) headerIndex keyColumn keyColIdx cols)
                      incomingObjects (data, rowByKey)))))"

text \<open>The column indices that the write list names.\<close>

definition writtenColumn :: "(string \<rightharpoonup> nat) \<Rightarrow> string list \<Rightarrow> nat \<Rightarrow> bool" where
  "writtenColumn headerIndex cols c = list_ex (\<lambda>col. headerIndex col = Some c) cols"

section \<open>Composite keys (utils/upsert.ts, buildKeyMap and upsertLongTable)\<close>

text \<open>The separator of the key parts, the broken bar (code 166).\<close>

definition keySep :: string where
  "keySep = [CHR 0xA6]"

text \<open>
  The key parts of a row, \<open>String(row[idx] || '')\<close> for each key index. A key index
  is what the read \<open>headerIndex[col]\<close> gave.
\<close>

definition keyPartsOf :: "colref list \<Rightarrow> jsval list \<Rightarrow> string list" where
  "keyPartsOf keyIndices row = map (\<lambda>idx. String_js (orEmpty (getAt row idx))) keyIndices"

text \<open>The composite key of a row, and the test that one of its parts is not empty.\<close>

definition rowKey :: "colref list \<Rightarrow> jsval list \<Rightarrow> string" where
  "rowKey keyIndices row = join keySep (keyPartsOf keyIndices row)"

definition keyed :: "colref list \<Rightarrow> jsval list \<Rightarrow> bool" where
  "keyed keyIndices row = list_ex (\<lambda>p. trim p \<noteq> []) (keyPartsOf keyIndices row)"

text \<open>
  The loop of \<open>buildKeyMap\<close> over the key columns: it leaves the function, with the
  empty map, at the first column whose read \<open>headerIndex[col]\<close> is \<open>undefined\<close>.
  For an inherited name the read is a function, which is pushed as the index.
\<close>

fun keyIndicesOf :: "(string \<rightharpoonup> nat) \<Rightarrow> string list \<Rightarrow> colref list option" where
  "keyIndicesOf headerIndex [] = Some []"
| "keyIndicesOf headerIndex (col # cols) =
     (let idx = indexGet headerIndex col
      in if idx = Undefined then None
         else map_option (Cons idx) (keyIndicesOf headerIndex cols))"

text \<open>The loop over the data rows; \<open>i\<close> is the index of the row in \<open>values\<close>.\<close>

fun buildKeyMapRows :: "colref list \<Rightarrow> nat \<Rightarrow> jsval list list \<Rightarrow> (string \<rightharpoonup> nat)
    \<Rightarrow> (string \<rightharpoonup> nat)" where
  "buildKeyMapRows keyIndices i [] keyMap = keyMap"
| "buildKeyMapRows keyIndices i (row # rows) keyMap =
     (let compositeKey = rowKey keyIndices row
      in buildKeyMapRows keyIndices (Suc i) rows
           (if keyed keyIndices row then keyMap(compositeKey \<mapsto> i + 1) else keyMap))"

definition buildKeyMap :: "sheet \<Rightarrow> string list \<Rightarrow> (string \<rightharpoonup> nat)" where
  "buildKeyMap sh keyColumns =
     (let lastRow = getLastRow sh;
          lastCol = max 1 (getLastColumn sh)
      in if lastRow < 2 then Map.empty
         else
           (let values = getValues sh lastRow lastCol;
                header = readHeader (hd values);
                headerIndex = buildHeaderIndex header
            in (case keyIndicesOf headerIndex keyColumns of
                  None \<Rightarrow> Map.empty
                | Some keyIndices \<Rightarrow> buildKeyMapRows keyIndices 1 (tl values) Map.empty)))"

text \<open>
  \<open>sheet.getRange(rowNum, 1, n, numCols).setValues(rows)\<close>: it throws when a row has
  not \<open>numCols\<close> values; else the rows from \<open>rowNum\<close> on take the values in their
  first \<open>numCols\<close> cells, and the sheet grows by blank rows when \<open>rowNum\<close> is below
  its last row.
\<close>

datatype sheet_error = ColumnCountMismatch

definition writeRow :: "jsval list \<Rightarrow> jsval list \<Rightarrow> jsval list" where
  "writeRow old new = map asCell new @ drop (length new) old"

definition rowAt :: "sheet \<Rightarrow> nat \<Rightarrow> jsval list" where
  "rowAt sh i = (if i < length sh then sh ! i else [])"

fun writeRows :: "sheet \<Rightarrow> nat \<Rightarrow> jsval list list \<Rightarrow> sheet" where
  "writeRows sh i [] = sh"
| "writeRows sh i (row # rows) =
     writeRows ((sh @ replicate (Suc i - length sh) [])[i := writeRow (rowAt sh i) row])
       (Suc i) rows"

definition setValues :: "sheet \<Rightarrow> nat \<Rightarrow> nat \<Rightarrow> jsval list list \<Rightarrow> sheet_error + sheet" where
  "setValues sh rowNum numCols rows =
     (if list_all (\<lambda>row. length row = numCols) rows then Inr (writeRows sh (rowNum - 1) rows)
      else Inl ColumnCountMismatch)"

text \<open>
  One turn of the first loop of \<open>upsertLongTable\<close>, on the updates (an object keyed
  by row number), the appends and the key map. The key indices are the reads
  \<open>headerIndex[col]\<close> as they are, \<open>undefined\<close> for a key column that the headers do
  not have, which gives an empty key part. The sheet does not change in this loop, so
  \<open>sheet.getLastRow()\<close> is the same number \<open>lastRow\<close> in every turn.
\<close>

definition longRowStep :: "nat \<Rightarrow> colref list \<Rightarrow> jsval list
    \<Rightarrow> (nat \<times> jsval list) list \<times> jsval list list \<times> (string \<rightharpoonup> nat)
    \<Rightarrow> (nat \<times> jsval list) list \<times> jsval list list \<times> (string \<rightharpoonup> nat)" where
  "longRowStep lastRow keyIndices row st =
     (case st of (updates, appends, existingKeyMap) \<Rightarrow>
        (let keyParts = keyPartsOf keyIndices row;
             compositeKey = join keySep keyParts
         in (case existingKeyMap compositeKey of
               Some existingRow \<Rightarrow>
                 (withEntry existingRow row (\<lambda>old. row) updates, appends, existingKeyMap)
             | None \<Rightarrow>
                 (let appends' = appends @ [row];
                      nextRow = lastRow + length appends'
                  in (updates, appends', existingKeyMap(compositeKey \<mapsto> nextRow))))))"

text \<open>The loop that executes the updates, in the order of the row numbers.\<close>

fun applyUpdates :: "nat \<Rightarrow> (nat \<times> jsval list) list \<Rightarrow> sheet \<Rightarrow> sheet_error + sheet" where
  "applyUpdates numCols [] sh = Inr sh"
| "applyUpdates numCols ((rowNum, rowValues) # us) sh =
     (case setValues sh rowNum numCols [rowValues] of
        Inl e \<Rightarrow> Inl e
      | Inr sh' \<Rightarrow> applyUpdates numCols us sh')"

text \<open>
  \<open>upsertLongTable\<close>: the sheet and the key map after the call, or the exception of
  a \<open>setValues\<close>. The appends are written below the last row that the sheet has once
  the updates are done.
\<close>

definition upsertLongTable :: "sheet \<Rightarrow> (string \<rightharpoonup> nat) \<Rightarrow> string list \<Rightarrow> jsval list list
    \<Rightarrow> string list \<Rightarrow> sheet_error + sheet \<times> (string \<rightharpoonup> nat)" where
  "upsertLongTable sh existingKeyMap headers newRows keyColumns =
     (if newRows = [] then Inr (sh, existingKeyMap)
      else
        (let headerIndex = buildHeaderIndex headers;
             keyIndices = map (indexGet headerIndex) keyColumns
         in (case fold (longRowStep (getLastRow sh) keyIndices) newRows ([], [], existingKeyMap) of
               (updates, appends, keyMap) \<Rightarrow>
                 (case applyUpdates (length headers) (sort_key fst updates) sh of
                    Inl e \<Rightarrow> Inl e
                  | Inr sh1 \<Rightarrow>
                      if appends \<noteq> [] then
                        (case setValues sh1 (getLastRow sh1 + 1) (length headers) appends of
                           Inl e \<Rightarrow> Inl e
                         | Inr sh2 \<Rightarrow> Inr (sh2, keyMap))
                      else Inr (sh1, keyMap)))))"

section \<open>Upsert by one key, script version (UpsertLogic.gs, UL_upsertByKey_)\<close>





text \<open>A cell that is neither \<open>null\<close> nor the empty string.\<close>

definition populated :: "jsval \<Rightarrow> bool" where
  "populated v = (v \<noteq> Null \<and> v \<noteq> Str [])"


text \<open>
  The loop over the incoming objects (lines 87 to 107), on the grid and the map from
  key to row index. It differs from the loop of \<open>upsertByKey\<close> in the key, which is
  the property as it is, skipped when \<open>null\<close> or empty and looked up by
  \<open>String(key)\<close>, and in the values, which are stored as they are.
\<close>

fun UL_writeCols :: "(string \<rightharpoonup> nat) \<Rightarrow> jsobj \<Rightarrow> string list \<Rightarrow> jsval list \<Rightarrow> jsval list" where
  "UL_writeCols idx obj [] row = row"
| "UL_writeCols idx obj (col # cols) row =
     UL_writeCols idx obj cols
       (let c = indexGet idx col
        in if c = Undefined then row
           else if hasOwn obj col then setAt row c (getProp obj col) else row)"

definition UL_object :: "nat \<Rightarrow> (string \<rightharpoonup> nat) \<Rightarrow> string \<Rightarrow> string list \<Rightarrow> jsobj
    \<Rightarrow> jsval list list \<times> (string \<rightharpoonup> nat) \<Rightarrow> jsval list list \<times> (string \<rightharpoonup> nat)" where
  "UL_object headerLength idx keyCol columnsToWrite obj st =
     (case st of (grid, rowIndexByKey) \<Rightarrow>
        (let key = getProp obj keyCol
         in if key = Null \<or> key = Str [] then (grid, rowIndexByKey)
            else
              (case rowIndexByKey (String_js key) of
                 None \<Rightarrow>
                   (let r = length grid;
                        empty = setAt (replicate headerLength blank) (indexGet idx keyCol) key
                    in (grid @ [UL_writeCols idx obj columnsToWrite empty],
                        rowIndexByKey(String_js key \<mapsto> r)))
               | Some r \<Rightarrow>
                   (if r < length grid
                    then grid[r := UL_writeCols idx obj columnsToWrite (grid ! r)]
                    else grid,
                    rowIndexByKey))))"



subsection \<open>Sheets used below\<close>

text \<open>A metrics sheet that holds its header row only, and one incoming object.\<close>

definition headerOnly :: sheet where
  "headerOnly = [[Str ''Ticker'']]"

definition oneMetric :: "jsobj list" where
  "oneMetric = [[(''Ticker'', Str ''AAPL''), (''OpPS_Latest'', Num ''0.3'')]]"

text \<open>
  A metrics sheet with a column that the engine does not own, and a batch that updates
  MSFT and adds AAPL (the upsert example of the specification).
\<close>

definition metricsSheet :: sheet where
  "metricsSheet = [[Str ''Ticker'', Str ''Notes'', Str ''OpPS_Latest''],
                   [Str ''MSFT'', Str ''watch'', Num ''0.4'']]"

definition metricsBatch :: "jsobj list" where
  "metricsBatch = [[(''Ticker'', Str ''MSFT''), (''OpPS_Latest'', Num ''0.45'')],
                   [(''Ticker'', Str ''AAPL''), (''OpPS_Latest'', Num ''0.3'')]]"

text \<open>A long table with the key (Ticker, Field) twice for JFC's revenue.\<close>

definition longSheet :: sheet where
  "longSheet = [[Str ''Ticker'', Str ''Field'', Str ''Value''],
                [Str ''JFC'', Str ''Revenue'', Num ''1''],
                [Str ''JFC'', Str ''Revenue'', Num ''2''],
                [Str ''ALI'', Str ''Revenue'', Num ''3'']]"

text \<open>A long table with its header row only, and a batch with one new key twice.\<close>

definition longHeaderOnly :: sheet where
  "longHeaderOnly = [[Str ''Ticker'', Str ''Field'', Str ''Value'']]"

definition twiceBatch :: "jsval list list" where
  "twiceBatch = [[Str ''JFC'', Str ''Revenue'', Num ''1''],
                 [Str ''JFC'', Str ''Revenue'', Num ''2'']]"

text \<open>A batch with one key that \<open>longSheet\<close> has and one that it has not.\<close>

definition mixedBatch :: "jsval list list" where
  "mixedBatch = [[Str ''JFC'', Str ''Revenue'', Num ''9''],
                 [Str ''SM'', Str ''Revenue'', Num ''5'']]"

text \<open>
  A metrics sheet without the column \<open>OpPS_Latest\<close>, and a batch of one object that
  updates MSFT.
\<close>

definition notesSheet :: sheet where
  "notesSheet = [[Str ''Ticker'', Str ''Notes''],
                 [Str ''MSFT'', Str ''watch'']]"


subsection \<open>Invariants of the upsert\<close>

text \<open>
  A header index is good when every index it gives is a column of the header and no
  two names have the same index.
\<close>

definition goodIndex :: "string list \<Rightarrow> (string \<rightharpoonup> nat) \<Rightarrow> bool" where
  "goodIndex header idx =
     ((\<forall>name i. idx name = Some i \<longrightarrow> i < length header)
      \<and> (\<forall>a b i. idx a = Some i \<and> idx b = Some i \<longrightarrow> a = b))"

text \<open>
  The frame of a loop over the incoming objects, with \<open>orig\<close> the table before the
  loop: the table only grows; a row of \<open>orig\<close> keeps its cells in the columns that
  are not written; a row below has blank cells there and a key cell that satisfies
  \<open>P\<close>.
\<close>

definition frameInv :: "(jsval \<Rightarrow> bool) \<Rightarrow> nat \<Rightarrow> (string \<rightharpoonup> nat) \<Rightarrow> string list \<Rightarrow> nat
    \<Rightarrow> jsval list list \<Rightarrow> jsval list list \<Rightarrow> bool" where
  "frameInv P hl hi cols k orig data =
     (length orig \<le> length data
      \<and> (\<forall>i < length orig. length (orig ! i) \<le> length (data ! i)
            \<and> (\<forall>c < length (orig ! i). \<not> writtenColumn hi cols c \<longrightarrow> data ! i ! c = orig ! i ! c))
      \<and> (\<forall>i. length orig \<le> i \<and> i < length data \<longrightarrow>
            hl \<le> length (data ! i)
            \<and> (\<forall>c < hl. \<not> writtenColumn hi cols c \<longrightarrow> data ! i ! c = blank)
            \<and> P (data ! i ! k)))"

section \<open>Properties of the CAGR engine\<close>

subsection \<open>The adjustment flag\<close>

lemma windowAdj_of_signs:
  assumes "minRows \<le> length series"
  shows "windowAdj series m minRows years \<longleftrightarrow>
     (\<exists>x. metricOf m (series ! (length series - 1)) = Some x \<and> x \<le> 0)
   \<or> (\<exists>x. metricOf m (series ! (length series - 1 - years)) = Some x \<and> x \<le> 0)"
  using assms by (auto simp: windowAdj_def rawNonPositive_def Let_def split: option.splits)

lemma windowAdj_short:
  assumes "length series < minRows"
  shows "\<not> windowAdj series m minRows years"
  using assms by (simp add: windowAdj_def)

text \<open>On a series that is not empty \<open>calculateMetricCAGRs\<close> returns a result.\<close>

lemma calculateMetricCAGRs_returns:
  assumes "series \<noteq> []"
  shows "\<exists>r. calculateMetricCAGRs series m = Inr r"
  using assms by (simp add: calculateMetricCAGRs_def Let_def)

text \<open>
  In \<open>calculateMetricCAGRs\<close> the flag of a metric is set exactly when the unfloored
  latest value, or the unfloored start of a window that has enough rows, is a number
  not above zero (the end of every window is the latest value).
\<close>

lemma calculateMetricCAGRs_adjustedFlag:
  assumes "calculateMetricCAGRs series m = Inr r"
  shows "adjustedFlag r \<longleftrightarrow>
      rawNonPositive (metricOf m (series ! (length series - 1)))
    \<or> (6 \<le> length series \<and> rawNonPositive (metricOf m (series ! (length series - 6))))
    \<or> (10 \<le> length series \<and> rawNonPositive (metricOf m (series ! (length series - 10))))
    \<or> (11 \<le> length series \<and> rawNonPositive (metricOf m (series ! (length series - 11))))"
proof -
  have ne: "series \<noteq> []"
    using assms by (auto simp: calculateMetricCAGRs_def)
  have idx: "length series - 1 - 5 = length series - 6"
    "length series - 1 - 9 = length series - 10"
    "length series - 1 - 10 = length series - 11"
    by simp_all
  from assms ne have "adjustedFlag r =
      (rawNonPositive (metricOf m (series ! (length series - 1)))
       \<or> windowAdj series m MIN_ROWS_5Y 5 \<or> windowAdj series m MIN_ROWS_9Y 9
       \<or> windowAdj series m MIN_ROWS_10Y 10)"
    by (auto simp: calculateMetricCAGRs_def Let_def)
  then show ?thesis
    by (auto simp: windowAdj_def MIN_ROWS_5Y_def MIN_ROWS_9Y_def MIN_ROWS_10Y_def Let_def idx)
qed

text \<open>
  In the script's \<open>computeCAGRs_\<close> a latest value that is \<open>null\<close> is floored
  to 0.01 and sets the flag, on every series.
\<close>

lemma computeCAGRs_metric_null_latest:
  assumes "arr \<noteq> []" and "metricOf m (arr ! (length arr - 1)) = None"
  shows "\<exists>r. computeCAGRs_metric arr m = Some r \<and> latest r = Some (1 / 100) \<and> adjustedFlag r"
  using assms
  by (simp add: computeCAGRs_metric_def toNum_gs_def floor01_gs_def le0_js_def Number_js_def
      Let_def)

text \<open>
  Claim C1. The flag of a metric is to be true exactly when the raw latest value or a
  raw endpoint of a window is non-null and not above zero. \<open>calculateMetricCAGRs\<close>
  does that (\<open>calculateMetricCAGRs_adjustedFlag\<close>). The script's \<open>computeCAGRs_\<close>
  does not: for a ticker whose only year has a non-numeric operating income per share,
  so that the raw value is \<open>null\<close>, it emits the floor value 0.01 as the latest value
  and sets the flag, where \<open>calculateMetricCAGRs\<close> on the same series emits
  \<open>null\<close> and leaves the flag unset.
\<close>

theorem computeCAGRs_flags_null_latest:
  "computeCAGRs_metric na_latest M_OpPS =
     Some \<lparr> latest = Some (1 / 100), cagr5Y = None, cagr9Y = None, cagr10Y = None,
            adjustedFlag = True \<rparr>
   \<and> metricOf M_OpPS (na_latest ! (length na_latest - 1)) = None
   \<and> calculateMetricCAGRs na_latest M_OpPS =
     Inr \<lparr> latest = None, cagr5Y = None, cagr9Y = None, cagr10Y = None,
           adjustedFlag = False \<rparr>"
  by (simp add: computeCAGRs_metric_def calculateMetricCAGRs_def na_latest_def windowCagr_def
      windowAdj_def windowCagr_gs_def windowAdj_gs_def MIN_ROWS_5Y_def MIN_ROWS_9Y_def
      MIN_ROWS_10Y_def floor01_def toNum_def rawNonPositive_def toNum_gs_def floor01_gs_def
      le0_js_def Number_js_def Let_def)

subsection \<open>The windows\<close>

lemma power_powr_inverse:
  assumes "0 < n" and "0 < (x::real)"
  shows "(x ^ n) powr (1 / real n) = x"
proof -
  have "(x ^ n) powr (1 / real n) = (x powr real n) powr (1 / real n)"
    using assms(2) by (simp add: powr_realpow)
  also have "\<dots> = x powr (real n * (1 / real n))"
    by (simp only: powr_powr)
  also have "\<dots> = x"
    using assms by simp
  finally show ?thesis .
qed

lemma settles_floor:
  assumes "settles q p k"
  shows "\<lfloor>(q powr p - 1) * 10000 + 1 / 2\<rfloor> = k"
  using assms unfolding settles_def by (intro floor_unique) linarith+

text \<open>
  One window of \<open>calculateMetricCAGRs\<close>, with enough rows. When an endpoint is
  \<open>null\<close> the CAGR is \<open>null\<close>. When both are numbers, each is floored to 0.01 if
  it is not above zero, and the CAGR is the growth of the quotient of the floored
  values, rounded to \<open>k / 10000\<close> when it settles there.
\<close>

lemma windowCagr_null:
  assumes "minRows \<le> length series"
    and "metricOf m (series ! (length series - 1)) = None
       \<or> metricOf m (series ! (length series - Suc years)) = None"
  shows "windowCagr series m minRows years = None"
proof -
  have "length series - 1 - years = length series - Suc years"
    by simp
  then show ?thesis
    using assms
    by (auto simp: windowCagr_def floor01_def toNum_def Let_def split: option.splits)
qed

lemma windowCagr_value:
  assumes "minRows \<le> length series"
    and "metricOf m (series ! (length series - 1)) = Some e"
    and "metricOf m (series ! (length series - Suc years)) = Some s"
    and "settles ((if e \<le> 0 then 1 / 100 else e) / (if s \<le> 0 then 1 / 100 else s))
           (1 / real years) k"
  shows "windowCagr series m minRows years = Some (of_int k / 10000)"
proof -
  let ?q = "(if e \<le> 0 then 1 / 100 else e) / (if s \<le> 0 then 1 / 100 else s)"
  have i: "length series - 1 - years = length series - Suc years"
    by simp
  have "windowCagr series m minRows years
      = Some (of_int \<lfloor>(?q powr (1 / real years) - 1) * 10000 + 1 / 2\<rfloor> / 10000)"
    using assms(1-3) unfolding windowCagr_def i
    by (simp add: floor01_def toNum_def round4_def Math_round_def Math_pow_def Let_def)
  then show ?thesis
    using settles_floor [OF assms(4)] by simp
qed

text \<open>
  Claim C2, amended. With \<open>N\<close> rows in the series: the 5-year CAGR is \<open>null\<close> and
  its adjustment component false when \<open>N < 6\<close>. When \<open>N \<ge> 6\<close>, with \<open>e\<close> the value
  of row \<open>N - 1\<close> and \<open>s\<close> the value of row \<open>N - 6\<close>: the CAGR is \<open>null\<close> when one
  of them is \<open>null\<close>; when both are numbers, \<open>floor01\<close> makes of each a number above
  zero, 0.01 in place of a value not above zero, and the CAGR is
  \<open>(endAdj / startAdj)^(1/5) - 1\<close> rounded to four decimals, for every quotient whose
  growth settles (\<open>settles\<close>: away from a tie of the rounding, in a range without
  overflow). The 9-year and 10-year windows do the same with 10 rows, row \<open>N - 10\<close>
  and exponent \<open>1/9\<close>, and with 11 rows, row \<open>N - 11\<close> and exponent \<open>1/10\<close>.
\<close>

theorem cagr_windows:
  assumes "calculateMetricCAGRs series m = Inr r"
  shows "(length series < 6 \<longrightarrow> cagr5Y r = None \<and> \<not> windowAdj series m MIN_ROWS_5Y 5)
    \<and> (length series < 10 \<longrightarrow> cagr9Y r = None \<and> \<not> windowAdj series m MIN_ROWS_9Y 9)
    \<and> (length series < 11 \<longrightarrow> cagr10Y r = None \<and> \<not> windowAdj series m MIN_ROWS_10Y 10)
    \<and> (6 \<le> length series
          \<and> (metricOf m (series ! (length series - 1)) = None
              \<or> metricOf m (series ! (length series - 6)) = None)
        \<longrightarrow> cagr5Y r = None)
    \<and> (10 \<le> length series
          \<and> (metricOf m (series ! (length series - 1)) = None
              \<or> metricOf m (series ! (length series - 10)) = None)
        \<longrightarrow> cagr9Y r = None)
    \<and> (11 \<le> length series
          \<and> (metricOf m (series ! (length series - 1)) = None
              \<or> metricOf m (series ! (length series - 11)) = None)
        \<longrightarrow> cagr10Y r = None)
    \<and> (\<forall>e s k. 6 \<le> length series
          \<and> metricOf m (series ! (length series - 1)) = Some e
          \<and> metricOf m (series ! (length series - 6)) = Some s
          \<and> settles ((if e \<le> 0 then 1 / 100 else e) / (if s \<le> 0 then 1 / 100 else s)) (1 / 5) k
        \<longrightarrow> floor01 (Some e) = Some (if e \<le> 0 then 1 / 100 else e)
            \<and> floor01 (Some s) = Some (if s \<le> 0 then 1 / 100 else s)
            \<and> cagr5Y r = Some (of_int k / 10000))
    \<and> (\<forall>e s k. 10 \<le> length series
          \<and> metricOf m (series ! (length series - 1)) = Some e
          \<and> metricOf m (series ! (length series - 10)) = Some s
          \<and> settles ((if e \<le> 0 then 1 / 100 else e) / (if s \<le> 0 then 1 / 100 else s)) (1 / 9) k
        \<longrightarrow> floor01 (Some e) = Some (if e \<le> 0 then 1 / 100 else e)
            \<and> floor01 (Some s) = Some (if s \<le> 0 then 1 / 100 else s)
            \<and> cagr9Y r = Some (of_int k / 10000))
    \<and> (\<forall>e s k. 11 \<le> length series
          \<and> metricOf m (series ! (length series - 1)) = Some e
          \<and> metricOf m (series ! (length series - 11)) = Some s
          \<and> settles ((if e \<le> 0 then 1 / 100 else e) / (if s \<le> 0 then 1 / 100 else s)) (1 / 10) k
        \<longrightarrow> floor01 (Some e) = Some (if e \<le> 0 then 1 / 100 else e)
            \<and> floor01 (Some s) = Some (if s \<le> 0 then 1 / 100 else s)
            \<and> cagr10Y r = Some (of_int k / 10000))"
proof -
  have ne: "series \<noteq> []"
    using assms by (auto simp: calculateMetricCAGRs_def)
  from assms ne have r: "cagr5Y r = windowCagr series m MIN_ROWS_5Y 5"
    "cagr9Y r = windowCagr series m MIN_ROWS_9Y 9"
    "cagr10Y r = windowCagr series m MIN_ROWS_10Y 10"
    by (auto simp: calculateMetricCAGRs_def Let_def)
  have short: "length series < 6 \<longrightarrow> cagr5Y r = None \<and> \<not> windowAdj series m MIN_ROWS_5Y 5"
    "length series < 10 \<longrightarrow> cagr9Y r = None \<and> \<not> windowAdj series m MIN_ROWS_9Y 9"
    "length series < 11 \<longrightarrow> cagr10Y r = None \<and> \<not> windowAdj series m MIN_ROWS_10Y 10"
    unfolding r
    by (simp_all add: windowCagr_def windowAdj_def MIN_ROWS_5Y_def MIN_ROWS_9Y_def
        MIN_ROWS_10Y_def)
  have null: "6 \<le> length series
          \<and> (metricOf m (series ! (length series - 1)) = None
              \<or> metricOf m (series ! (length series - 6)) = None)
        \<longrightarrow> cagr5Y r = None"
    "10 \<le> length series
          \<and> (metricOf m (series ! (length series - 1)) = None
              \<or> metricOf m (series ! (length series - 10)) = None)
        \<longrightarrow> cagr9Y r = None"
    "11 \<le> length series
          \<and> (metricOf m (series ! (length series - 1)) = None
              \<or> metricOf m (series ! (length series - 11)) = None)
        \<longrightarrow> cagr10Y r = None"
    unfolding r
    using windowCagr_null [of MIN_ROWS_5Y series m 5] windowCagr_null [of MIN_ROWS_9Y series m 9]
      windowCagr_null [of MIN_ROWS_10Y series m 10]
    by (simp_all add: MIN_ROWS_5Y_def MIN_ROWS_9Y_def MIN_ROWS_10Y_def)
  have fl: "floor01 (Some x) = Some (if x \<le> 0 then 1 / 100 else x)" for x :: real
    by (simp add: floor01_def toNum_def)
  have c5: "\<forall>e s k. 6 \<le> length series
          \<and> metricOf m (series ! (length series - 1)) = Some e
          \<and> metricOf m (series ! (length series - 6)) = Some s
          \<and> settles ((if e \<le> 0 then 1 / 100 else e) / (if s \<le> 0 then 1 / 100 else s)) (1 / 5) k
        \<longrightarrow> floor01 (Some e) = Some (if e \<le> 0 then 1 / 100 else e)
            \<and> floor01 (Some s) = Some (if s \<le> 0 then 1 / 100 else s)
            \<and> cagr5Y r = Some (of_int k / 10000)"
  proof (intro allI impI conjI)
    fix e s :: real and k :: int
    assume h: "6 \<le> length series
          \<and> metricOf m (series ! (length series - 1)) = Some e
          \<and> metricOf m (series ! (length series - 6)) = Some s
          \<and> settles ((if e \<le> 0 then 1 / 100 else e) / (if s \<le> 0 then 1 / 100 else s)) (1 / 5) k"
    show "floor01 (Some e) = Some (if e \<le> 0 then 1 / 100 else e)" by (rule fl)
    show "floor01 (Some s) = Some (if s \<le> 0 then 1 / 100 else s)" by (rule fl)
    show "cagr5Y r = Some (of_int k / 10000)"
      unfolding r using h windowCagr_value [of MIN_ROWS_5Y series m e 5 s k]
      by (simp add: MIN_ROWS_5Y_def)
  qed
  have c9: "\<forall>e s k. 10 \<le> length series
          \<and> metricOf m (series ! (length series - 1)) = Some e
          \<and> metricOf m (series ! (length series - 10)) = Some s
          \<and> settles ((if e \<le> 0 then 1 / 100 else e) / (if s \<le> 0 then 1 / 100 else s)) (1 / 9) k
        \<longrightarrow> floor01 (Some e) = Some (if e \<le> 0 then 1 / 100 else e)
            \<and> floor01 (Some s) = Some (if s \<le> 0 then 1 / 100 else s)
            \<and> cagr9Y r = Some (of_int k / 10000)"
  proof (intro allI impI conjI)
    fix e s :: real and k :: int
    assume h: "10 \<le> length series
          \<and> metricOf m (series ! (length series - 1)) = Some e
          \<and> metricOf m (series ! (length series - 10)) = Some s
          \<and> settles ((if e \<le> 0 then 1 / 100 else e) / (if s \<le> 0 then 1 / 100 else s)) (1 / 9) k"
    show "floor01 (Some e) = Some (if e \<le> 0 then 1 / 100 else e)" by (rule fl)
    show "floor01 (Some s) = Some (if s \<le> 0 then 1 / 100 else s)" by (rule fl)
    show "cagr9Y r = Some (of_int k / 10000)"
      unfolding r using h windowCagr_value [of MIN_ROWS_9Y series m e 9 s k]
      by (simp add: MIN_ROWS_9Y_def)
  qed
  have c10: "\<forall>e s k. 11 \<le> length series
          \<and> metricOf m (series ! (length series - 1)) = Some e
          \<and> metricOf m (series ! (length series - 11)) = Some s
          \<and> settles ((if e \<le> 0 then 1 / 100 else e) / (if s \<le> 0 then 1 / 100 else s)) (1 / 10) k
        \<longrightarrow> floor01 (Some e) = Some (if e \<le> 0 then 1 / 100 else e)
            \<and> floor01 (Some s) = Some (if s \<le> 0 then 1 / 100 else s)
            \<and> cagr10Y r = Some (of_int k / 10000)"
  proof (intro allI impI conjI)
    fix e s :: real and k :: int
    assume h: "11 \<le> length series
          \<and> metricOf m (series ! (length series - 1)) = Some e
          \<and> metricOf m (series ! (length series - 11)) = Some s
          \<and> settles ((if e \<le> 0 then 1 / 100 else e) / (if s \<le> 0 then 1 / 100 else s)) (1 / 10) k"
    show "floor01 (Some e) = Some (if e \<le> 0 then 1 / 100 else e)" by (rule fl)
    show "floor01 (Some s) = Some (if s \<le> 0 then 1 / 100 else s)" by (rule fl)
    show "cagr10Y r = Some (of_int k / 10000)"
      unfolding r using h windowCagr_value [of MIN_ROWS_10Y series m e 10 s k]
      by (simp add: MIN_ROWS_10Y_def)
  qed
  show ?thesis
    by (intro conjI) (fact short null c5 c9 c10)+
qed

text \<open>Fifth, ninth and tenth roots that are rational.\<close>

lemma powr_steps:
  "(32::real) powr (1 / 5) = 2" "(19683::real) powr (1 / 9) = 3" "(1024::real) powr (1 / 10) = 2"
  "(28629151 / 33554432 :: real) powr (1 / 5) = 31 / 32"
  using power_powr_inverse [of 5 "2::real"] power_powr_inverse [of 9 "3::real"]
    power_powr_inverse [of 10 "2::real"] power_powr_inverse [of 5 "31 / 32 :: real"]
  by (simp_all add: power_divide)

lemma settles_steps:
  "settles 32 (1 / 5) 10000" "settles 19683 (1 / 9) 20000" "settles 1024 (1 / 10) 10000"
  by (simp_all add: settles_def powr_steps)

text \<open>
  The theorem at the eleven-year series \<open>steps11\<close> and at the six-year series
  \<open>acme\<close>. In \<open>steps11\<close> the three windows start at rows with different values, one
  of them a loss that is floored, and the rates are 1, 2 and 1: the fifth root of
  \<open>10.24 / 0.32\<close>, the ninth root of 19683 and the tenth root of \<open>10.24 / 0.01\<close>,
  each less 1. With the six rows of \<open>acme\<close> the 9-year and 10-year rates are
  \<open>null\<close> and their components false.
\<close>

theorem cagr_windows_witness:
  "(\<exists>r. calculateMetricCAGRs steps11 M_OpPS = Inr r
      \<and> 11 \<le> length steps11
      \<and> metricOf M_OpPS (steps11 ! (length steps11 - 1)) = Some (256 / 25)
      \<and> metricOf M_OpPS (steps11 ! (length steps11 - 6)) = Some (8 / 25)
      \<and> metricOf M_OpPS (steps11 ! (length steps11 - 10)) = Some (256 / 492075)
      \<and> metricOf M_OpPS (steps11 ! (length steps11 - 11)) = Some (- 5)
      \<and> settles (256 / 25 / (8 / 25)) (1 / 5) 10000
      \<and> settles (256 / 25 / (256 / 492075)) (1 / 9) 20000
      \<and> settles (256 / 25 / (1 / 100)) (1 / 10) 10000
      \<and> floor01 (Some (- 5)) = Some (1 / 100)
      \<and> cagr5Y r = Some 1 \<and> cagr9Y r = Some 2 \<and> cagr10Y r = Some 1)
   \<and> (\<exists>r. calculateMetricCAGRs acme M_OpPS = Inr r \<and> length acme < 10
      \<and> cagr9Y r = None \<and> \<not> windowAdj acme M_OpPS MIN_ROWS_9Y 9
      \<and> cagr10Y r = None \<and> \<not> windowAdj acme M_OpPS MIN_ROWS_10Y 10)"
proof -
  have "steps11 \<noteq> []"
    by (simp add: steps11_def)
  then obtain r where r: "calculateMetricCAGRs steps11 M_OpPS = Inr r"
    using calculateMetricCAGRs_returns by blast
  note w = cagr_windows [OF r]
  note w5 = w [THEN conjunct2, THEN conjunct2, THEN conjunct2, THEN conjunct2, THEN conjunct2,
      THEN conjunct2, THEN conjunct1, rule_format]
  note w9 = w [THEN conjunct2, THEN conjunct2, THEN conjunct2, THEN conjunct2, THEN conjunct2,
      THEN conjunct2, THEN conjunct2, THEN conjunct1, rule_format]
  note w10 = w [THEN conjunct2, THEN conjunct2, THEN conjunct2, THEN conjunct2, THEN conjunct2,
      THEN conjunct2, THEN conjunct2, THEN conjunct2, rule_format]
  have rows: "11 \<le> length steps11"
    "metricOf M_OpPS (steps11 ! (length steps11 - 1)) = Some (256 / 25)"
    "metricOf M_OpPS (steps11 ! (length steps11 - 6)) = Some (8 / 25)"
    "metricOf M_OpPS (steps11 ! (length steps11 - 10)) = Some (256 / 492075)"
    "metricOf M_OpPS (steps11 ! (length steps11 - 11)) = Some (- 5)"
    by (simp_all add: steps11_def)
  have s5: "settles (256 / 25 / (8 / 25)) (1 / 5) 10000"
    and s9: "settles (256 / 25 / (256 / 492075)) (1 / 9) 20000"
    and s10: "settles (256 / 25 / (1 / 100)) (1 / 10) 10000"
    using settles_steps by simp_all
  have "floor01 (Some (- 5)) = Some (1 / 100) \<and> cagr5Y r = Some 1"
    using w5 [of "256 / 25" "8 / 25" 10000] w10 [of "256 / 25" "- 5" 10000] rows s5 s10
    by simp
  moreover have "cagr9Y r = Some 2"
    using w9 [of "256 / 25" "256 / 492075" 20000] rows s9 by simp
  moreover have "cagr10Y r = Some 1"
    using w10 [of "256 / 25" "- 5" 10000] rows s10 by simp
  ultimately have 1: "\<exists>r. calculateMetricCAGRs steps11 M_OpPS = Inr r
      \<and> 11 \<le> length steps11
      \<and> metricOf M_OpPS (steps11 ! (length steps11 - 1)) = Some (256 / 25)
      \<and> metricOf M_OpPS (steps11 ! (length steps11 - 6)) = Some (8 / 25)
      \<and> metricOf M_OpPS (steps11 ! (length steps11 - 10)) = Some (256 / 492075)
      \<and> metricOf M_OpPS (steps11 ! (length steps11 - 11)) = Some (- 5)
      \<and> settles (256 / 25 / (8 / 25)) (1 / 5) 10000
      \<and> settles (256 / 25 / (256 / 492075)) (1 / 9) 20000
      \<and> settles (256 / 25 / (1 / 100)) (1 / 10) 10000
      \<and> floor01 (Some (- 5)) = Some (1 / 100)
      \<and> cagr5Y r = Some 1 \<and> cagr9Y r = Some 2 \<and> cagr10Y r = Some 1"
    using r rows s5 s9 s10 by blast
  have "acme \<noteq> []"
    by (simp add: acme_def)
  then obtain q where q: "calculateMetricCAGRs acme M_OpPS = Inr q"
    using calculateMetricCAGRs_returns by blast
  have len6: "length acme = 6"
    by (simp add: acme_def)
  note a = cagr_windows [OF q]
  have "cagr9Y q = None \<and> \<not> windowAdj acme M_OpPS MIN_ROWS_9Y 9"
    using a [THEN conjunct2, THEN conjunct1] len6 by simp
  moreover have "cagr10Y q = None \<and> \<not> windowAdj acme M_OpPS MIN_ROWS_10Y 10"
    using a [THEN conjunct2, THEN conjunct2, THEN conjunct1] len6 by simp
  ultimately have 2: "\<exists>r. calculateMetricCAGRs acme M_OpPS = Inr r \<and> length acme < 10
      \<and> cagr9Y r = None \<and> \<not> windowAdj acme M_OpPS MIN_ROWS_9Y 9
      \<and> cagr10Y r = None \<and> \<not> windowAdj acme M_OpPS MIN_ROWS_10Y 10"
    using q len6 by auto
  from 1 2 show ?thesis by (rule conjI)
qed

text \<open>
  Claim C2, as stated, fails where the growth is a tie below zero. The specification
  rounds half away from zero (its section 4.1). In \<open>tie6\<close> the growth over the five
  years is \<open>-0.03125\<close>, which that rule rounds to \<open>-0.0313\<close>. The engine rounds with
  \<open>Math.round(n * 10000) / 10000\<close>, which takes a tie to the integer above, and
  emits \<open>-0.0312\<close>.
\<close>

theorem cagr_tie_rounds_up:
  "calculateMetricCAGRs tie6 M_OpPS =
     Inr \<lparr> latest = Some (28629151 / 1000), cagr5Y = Some (- (312 / 10000)), cagr9Y = None,
           cagr10Y = None, adjustedFlag = False \<rparr>
   \<and> spec_round ((28629151 / 1000 / (33554432 / 1000)) powr (1 / 5) - 1) 4 = - (313 / 10000)"
proof -
  have "calculateMetricCAGRs tie6 M_OpPS =
     Inr \<lparr> latest = Some (28629151 / 1000), cagr5Y = Some (- (312 / 10000)), cagr9Y = None,
           cagr10Y = None, adjustedFlag = False \<rparr>"
    by (simp add: calculateMetricCAGRs_def tie6_def windowCagr_def windowAdj_def MIN_ROWS_5Y_def
        MIN_ROWS_9Y_def MIN_ROWS_10Y_def floor01_def toNum_def rawNonPositive_def round4_def
        Math_round_def Math_pow_def powr_steps Let_def)
  moreover have "spec_round ((28629151 / 1000 / (33554432 / 1000)) powr (1 / 5) - 1) 4
      = - (313 / 10000)"
    by (simp add: spec_round_def powr_steps)
  ultimately show ?thesis by (rule conjI)
qed

subsection \<open>The ACME example\<close>

text \<open>The fifth root of 300 lies between 3.12905 and 3.12915.\<close>

lemma powr_fifth_300_bounds:
  "312905 / 100000 \<le> (300::real) powr (1 / 5) \<and> (300::real) powr (1 / 5) < 312915 / 100000"
proof -
  define lo :: real where "lo = 312905 / 100000"
  define hi :: real where "hi = 312915 / 100000"
  have r: "(300::real) powr (1 / 5) = root 5 300"
    by (simp add: root_powr_inverse)
  have lo5: "lo ^ 5 \<le> 300"
    by (simp add: lo_def power_divide)
  have hi5: "300 < hi ^ 5"
    by (simp add: hi_def power_divide)
  have lo0: "0 \<le> lo" and hi0: "0 \<le> hi"
    by (simp_all add: lo_def hi_def)
  have "lo = root 5 (lo ^ 5)"
    using lo0 by (simp add: real_root_power_cancel)
  also have "\<dots> \<le> root 5 300"
    using lo5 by (simp only: real_root_le_iff zero_less_numeral)
  finally have 1: "lo \<le> root 5 300" .
  have "root 5 300 < root 5 (hi ^ 5)"
    using hi5 by (simp only: real_root_less_iff zero_less_numeral)
  also have "\<dots> = hi"
    using hi0 by (simp add: real_root_power_cancel)
  finally have 2: "root 5 300 < hi" .
  from 1 2 show ?thesis
    unfolding r lo_def hi_def by blast
qed

lemma acme_cagr5:
  "Math_round ((Math_pow (3 / (1 / 100)) (1 / real 5) - 1) * 10000) / 10000 = 21291 / 10000"
proof -
  let ?x = "(300::real) powr (1 / 5)"
  have b: "312905 / 100000 \<le> ?x" "?x < 312915 / 100000"
    using powr_fifth_300_bounds by simp_all
  have "\<lfloor>(?x - 1) * 10000 + 1 / 2\<rfloor> = 21291"
    using b by (intro floor_unique) simp_all
  then show ?thesis
    by (simp add: Math_round_def Math_pow_def)
qed

lemma acme_value:
  "calculateMetricCAGRs acme M_OpPS =
     Inr \<lparr> latest = Some 3, cagr5Y = Some (21291 / 10000), cagr9Y = None, cagr10Y = None,
           adjustedFlag = True \<rparr>"
  using acme_cagr5
  by (simp add: calculateMetricCAGRs_def acme_def windowCagr_def windowAdj_def MIN_ROWS_5Y_def
      MIN_ROWS_9Y_def MIN_ROWS_10Y_def floor01_def toNum_def rawNonPositive_def round4_def
      Let_def)

text \<open>
  Claim C4, as stated, fails: on the ACME series the engine does not emit a 5-year CAGR
  of 3.0229. The value \<open>300^0.2 - 1\<close> is about 2.1291, not 3.0229.
\<close>

theorem acme_cagr5_is_not_3_0229:
  "\<not> (\<exists>r. calculateMetricCAGRs acme M_OpPS = Inr r \<and> latest r = Some 3
        \<and> cagr5Y r = Some (30229 / 10000) \<and> adjustedFlag r)"
  by (simp add: acme_value)

text \<open>
  Claim C4, amended. On the ACME series the engine emits the latest value 3.0, which was
  not floored (\<open>latestWasAdjusted\<close> is false), a 5-year CAGR of
  \<open>(3.0 / 0.01)^(1/5) - 1\<close> rounded to four decimals, which is 2.1291, no 9-year and no
  10-year CAGR, \<open>adjusted5 = true\<close> and the adjustment flag true.
\<close>

theorem acme_example:
  "calculateMetricCAGRs acme M_OpPS =
     Inr \<lparr> latest = Some 3, cagr5Y = Some (21291 / 10000), cagr9Y = None, cagr10Y = None,
           adjustedFlag = True \<rparr>
   \<and> rawNonPositive (metricOf M_OpPS (acme ! (length acme - 1))) = False
   \<and> floor01 (metricOf M_OpPS (acme ! (length acme - 6))) = Some (1 / 100)
   \<and> windowAdj acme M_OpPS MIN_ROWS_5Y 5 = True"
proof -
  have "rawNonPositive (metricOf M_OpPS (acme ! (length acme - 1))) = False"
    by (simp add: acme_def rawNonPositive_def)
  moreover have "floor01 (metricOf M_OpPS (acme ! (length acme - 6))) = Some (1 / 100)"
    by (simp add: acme_def floor01_def toNum_def)
  moreover have "windowAdj acme M_OpPS MIN_ROWS_5Y 5 = True"
    by (simp add: acme_def windowAdj_def MIN_ROWS_5Y_def rawNonPositive_def)
  ultimately show ?thesis
    using acme_value by simp
qed

section \<open>Properties of the per-share builder\<close>

subsection \<open>Strings and the index\<close>

lemma startsWith_append: "startsWith (p @ s) p"
  by (induction p) auto

lemma startsWith_iff: "startsWith s p \<longleftrightarrow> (\<exists>b. s = p @ b)"
  by (induction s p rule: startsWith.induct) auto

lemma includes_iff: "str_includes s p \<longleftrightarrow> (\<exists>a b. s = a @ p @ b)"
proof (induction s p rule: str_includes.induct)
  case (1 p)
  then show ?case by auto
next
  case (2 c cs p)
  show ?case
  proof
    assume "str_includes (c # cs) p"
    then consider "startsWith (c # cs) p" | "str_includes cs p" by auto
    then show "\<exists>a b. c # cs = a @ p @ b"
    proof cases
      case 1
      then obtain b where "c # cs = p @ b" using startsWith_iff by blast
      then have "c # cs = [] @ p @ b" by simp
      then show ?thesis by blast
    next
      case 2
      then obtain a b where "cs = a @ p @ b" using "2.IH" by blast
      then have "c # cs = (c # a) @ p @ b" by simp
      then show ?thesis by blast
    qed
  next
    assume "\<exists>a b. c # cs = a @ p @ b"
    then obtain a b where ab: "c # cs = a @ p @ b" by blast
    show "str_includes (c # cs) p"
    proof (cases a)
      case Nil
      then have "startsWith (c # cs) p" using ab startsWith_iff by auto
      then show ?thesis by simp
    next
      case (Cons x xs)
      then have "cs = xs @ p @ b" using ab by simp
      then have "str_includes cs p" using "2.IH" by blast
      then show ?thesis by simp
    qed
  qed
qed

lemma normTicker_includes: "str_includes (normTicker t) ''.PSE''"
proof (cases "str_includes t ''.PSE''")
  case True
  then show ?thesis by (simp add: normTicker_def)
next
  case False
  have "t @ ''.PSE'' = t @ ''.PSE'' @ []" by simp
  then have "str_includes (t @ ''.PSE'') ''.PSE''" unfolding includes_iff by blast
  with False show ?thesis by (simp add: normTicker_def)
qed

lemma withEntry_keys:
  "map fst (withEntry k d f al) = (if k \<in> fst ` set al then map fst al else map fst al @ [k])"
  by (induction al) force+

lemma withEntry_distinct: "distinct (map fst al) \<Longrightarrow> distinct (map fst (withEntry k d f al))"
  by (simp add: withEntry_keys)

lemma withEntry_mem:
  "(k', v') \<in> set (withEntry k d f al) \<Longrightarrow>
     (k', v') \<in> set al \<or> (k' = k \<and> (\<exists>v. v' = f v \<and> ((k, v) \<in> set al \<or> v = d)))"
  by (induction al) (auto split: if_splits)

lemma wellKeyed_unique:
  assumes "wellKeyed idx" "(t, ys) \<in> set idx" "(y, d) \<in> set ys"
    and "(t, ys') \<in> set idx" "(y, d') \<in> set ys'"
  shows "d = d'"
proof -
  from assms(1,2,4) have "ys = ys'"
    by (metis wellKeyed_def eq_key_imp_eq_value)
  moreover from assms(1,2) have "distinct (map fst ys)"
    by (auto simp: wellKeyed_def list_all_iff)
  ultimately show ?thesis
    using assms(3,5) by (metis eq_key_imp_eq_value)
qed

lemma indexRow_wellKeyed:
  assumes "wellKeyed idx"
  shows "wellKeyed (indexRow idx row)"
proof (cases "FiscalYear row")
  case None
  then show ?thesis using assms by (simp add: indexRow_def)
next
  case (Some year)
  show ?thesis
  proof (cases "Ticker row = [] \<or> year = 0")
    case True
    then show ?thesis using assms Some by (simp add: indexRow_def)
  next
    case False
    let ?f = "withEntry year emptyYearData (bucket (Section row) (Field row) (Value row))"
    let ?r = "withEntry (normTicker (Ticker row)) [] ?f idx"
    have r: "indexRow idx row = ?r"
      using False Some by (simp add: indexRow_def)
    have "distinct (map fst ?r)"
      using assms by (simp add: wellKeyed_def withEntry_distinct)
    moreover have "distinct (map fst ys)" if "(t, ys) \<in> set ?r" for t ys
    proof -
      from withEntry_mem [OF that] consider "(t, ys) \<in> set idx"
        | v where "ys = ?f v" "(normTicker (Ticker row), v) \<in> set idx \<or> v = []"
        by blast
      then show ?thesis
      proof cases
        case 1
        then show ?thesis using assms by (auto simp: wellKeyed_def list_all_iff)
      next
        case 2
        then have "distinct (map fst v)"
          using assms by (auto simp: wellKeyed_def list_all_iff)
        then show ?thesis using 2 by (simp add: withEntry_distinct)
      qed
    qed
    ultimately show ?thesis
      unfolding r wellKeyed_def list_all_iff by auto
  qed
qed

lemma foldl_indexRow_wellKeyed: "wellKeyed idx \<Longrightarrow> wellKeyed (foldl indexRow idx rows)"
  by (induction rows arbitrary: idx) (simp_all add: indexRow_wellKeyed)

lemma indexByTickerYear_wellKeyed: "wellKeyed (indexByTickerYear rows)"
  unfolding indexByTickerYear_def
  by (rule foldl_indexRow_wellKeyed) (simp add: wellKeyed_def)

lemma indexRow_keys:
  assumes "(t, ys) \<in> set (indexRow idx row)"
  shows "(\<exists>ys'. (t, ys') \<in> set idx) \<or> t = normTicker (Ticker row)"
  using assms
  by (auto simp: indexRow_def split: option.splits if_splits dest!: withEntry_mem)

lemma foldl_indexRow_keys:
  assumes "(t, ys) \<in> set (foldl indexRow idx rows)"
  shows "(\<exists>ys'. (t, ys') \<in> set idx) \<or> (\<exists>row \<in> set rows. t = normTicker (Ticker row))"
  using assms
proof (induction rows arbitrary: idx ys)
  case Nil
  then show ?case by auto
next
  case (Cons row rows)
  from Cons.IH [of ys "indexRow idx row"] Cons.prems
  consider ys' where "(t, ys') \<in> set (indexRow idx row)"
    | "\<exists>row \<in> set rows. t = normTicker (Ticker row)"
    by auto
  then show ?case
  proof cases
    case 1
    then show ?thesis using indexRow_keys by fastforce
  next
    case 2
    then show ?thesis by auto
  qed
qed

lemma indexByTickerYear_keys:
  assumes "(t, ys) \<in> set (indexByTickerYear rows)"
  shows "\<exists>row \<in> set rows. t = normTicker (Ticker row)"
  using foldl_indexRow_keys [of t ys "[]" rows] assms
  by (simp add: indexByTickerYear_def)

lemma getValidShares_pos:
  "0 < getValidShares d \<longleftrightarrow>
     (\<exists>a. is_SharesDiluted d = Some a \<and> 0 < a) \<or> (\<exists>b. bs_SharesDiluted d = Some b \<and> 0 < b)"
  by (auto simp: getValidShares_def toNum_def Let_def split: option.splits)

lemma pickValid_mem:
  assumes "(y, s, d) \<in> set (pickValid ys acc)"
  shows "(y, s, d) \<in> set acc \<or> ((y, d) \<in> set ys \<and> s = getValidShares d \<and> 0 < s)"
  using assms
  by (induction ys acc rule: pickValid.induct) (auto simp: Let_def split: if_splits)

lemma tickerRows_mem:
  assumes "r \<in> set (tickerRows t ys)"
  shows "\<exists>y d. (y, d) \<in> set ys \<and> 0 < getValidShares d
           \<and> r = calculateRowMetrics t y (getValidShares d) d"
proof -
  from assms obtain y s d where "(y, s, d) \<in> set (pickValid (rev (sort_key fst ys)) [])"
    and r: "r = calculateRowMetrics t y s d"
    by (auto simp: tickerRows_def Let_def)
  from pickValid_mem [OF this(1)] have "(y, d) \<in> set ys \<and> s = getValidShares d \<and> 0 < s"
    by simp
  with r show ?thesis by blast
qed

lemma calculatePerShareMetrics_mem:
  assumes "r \<in> set (calculatePerShareMetrics idx)"
  shows "\<exists>t ys y d. (t, ys) \<in> set idx \<and> (y, d) \<in> set ys \<and> 0 < getValidShares d
           \<and> r = calculateRowMetrics t y (getValidShares d) d"
proof -
  from assms obtain t ys where "(t, ys) \<in> set idx" "r \<in> set (tickerRows t ys)"
    by (auto simp: calculatePerShareMetrics_def)
  with tickerRows_mem show ?thesis by blast
qed

lemma calculateRowMetrics_key:
  "out_Ticker (calculateRowMetrics t y s d) = t" "out_FiscalYear (calculateRowMetrics t y s d) = y"
  by (simp_all add: calculateRowMetrics_def Let_def)

lemma sample_index: "indexByTickerYear sampleLong =
  [(''JFC.PSE'', [(2020, emptyYearData\<lparr>is_SharesDiluted := Some 100, is_Revenue := Some 250\<rparr>),
                  (2019, emptyYearData\<lparr>is_SharesDiluted := Some 0, bs_SharesDiluted := None\<rparr>)])]"
  by (simp add: indexByTickerYear_def sampleLong_def indexRow_def normTicker_def bucket_def)

lemma ps_pick_mem:
  assumes "(y, s, d) \<in> set (ps_pick ys acc)"
  shows "(y, s, d) \<in> set acc \<or> ((y, d) \<in> set ys \<and> s = ps_validShares d \<and> 0 < s)"
  using assms
  by (induction ys acc rule: ps_pick.induct) (auto simp: Let_def split: if_splits)

lemma buildPerShare_Full_mem:
  assumes "r \<in> set (buildPerShare_Full longTable)"
  shows "\<exists>t ys y d. (t, ys) \<in> set (indexByTickerYear (ps_readLongTable longTable))
           \<and> (y, d) \<in> set ys
           \<and> 0 < ps_validShares d \<and> r = ps_row t y (ps_validShares d) d"
proof -
  from assms obtain t ys
    where t: "(t, ys) \<in> set (indexByTickerYear (ps_readLongTable longTable))"
    and "r \<in> set (ps_tickerRows t ys)"
    by (auto simp: buildPerShare_Full_def Let_def)
  then obtain y s d where "(y, s, d) \<in> set (ps_pick (rev (sort_key fst ys)) [])"
    and r: "r = ps_row t y s d"
    by (auto simp: ps_tickerRows_def Let_def)
  from ps_pick_mem [OF this(1)] have "(y, d) \<in> set ys \<and> s = ps_validShares d \<and> 0 < s"
    by simp
  with r t show ?thesis by blast
qed

lemma ps_row_key:
  "out_Ticker (ps_row t y s d) = t" "out_FiscalYear (ps_row t y s d) = y"
  by (simp_all add: ps_row_def Let_def)

lemma sample_rows: "buildPerShareFull sampleLong =
  [\<lparr>out_Ticker = ''JFC.PSE'', out_FiscalYear = 2020, RevenuePerShare = Some (5 / 2),
     GrossProfitPerShare = None, OperatingIncomePerShare = None, NetIncomePerShare = None,
     EquityPerShare = None, DebtToEquity = None\<rparr>]"
  by (simp add: buildPerShareFull_def sample_index calculatePerShareMetrics_def tickerRows_def
      getValidShares_def emptyYearData_def toNum_def calculateRowMetrics_def safeDiv_def
      round3_def Math_round_def MAX_YEARS_PER_TICKER_def Let_def)

lemma sample_index_gs: "indexByTickerYear (ps_readLongTable sampleLong) =
  [(''JFC.PSE'', [(2020, emptyYearData\<lparr>is_SharesDiluted := Some 100, is_Revenue := Some 250\<rparr>),
                  (2019, emptyYearData\<lparr>is_SharesDiluted := Some 0, bs_SharesDiluted := Some 0\<rparr>)])]"
  by (simp add: indexByTickerYear_def ps_readLongTable_def sampleLong_def indexRow_def
      normTicker_def bucket_def num_gs_def)

lemma sample_rows_gs: "buildPerShare_Full sampleLong =
  [\<lparr>out_Ticker = ''JFC.PSE'', out_FiscalYear = 2020, RevenuePerShare = Some (5 / 2),
     GrossProfitPerShare = Some 0, OperatingIncomePerShare = Some 0, NetIncomePerShare = Some 0,
     EquityPerShare = Some 0, DebtToEquity = Some 0\<rparr>]"
  by (simp add: buildPerShare_Full_def sample_index_gs ps_tickerRows_def
      ps_validShares_def emptyYearData_def num_gs_def ps_row_def ps_safeDiv_def
      ps_r3_def Math_round_def Let_def)

subsection \<open>The skip rule\<close>

text \<open>
  In \<open>buildPerShareFull\<close> a ticker and fiscal year whose diluted share count is a
  positive number neither in the income statement nor in the balance sheet (0 or
  \<open>null\<close> in both, for one) has no row in the output: the year is skipped, not filled
  with zeros. A share count that is not finite is \<open>null\<close> here, by \<open>toNum\<close>.
\<close>

lemma buildPerShareFull_skips:
  assumes "(t, byYear) \<in> set (indexByTickerYear longTable)" and "(y, d) \<in> set byYear"
    and "\<not> (\<exists>a. is_SharesDiluted d = Some a \<and> 0 < a)"
    and "\<not> (\<exists>b. bs_SharesDiluted d = Some b \<and> 0 < b)"
  shows "\<not> (\<exists>r \<in> set (buildPerShareFull longTable). out_Ticker r = t \<and> out_FiscalYear r = y)"
proof
  assume "\<exists>r \<in> set (buildPerShareFull longTable). out_Ticker r = t \<and> out_FiscalYear r = y"
  then obtain r where r: "r \<in> set (calculatePerShareMetrics (indexByTickerYear longTable))"
    "out_Ticker r = t" "out_FiscalYear r = y"
    by (auto simp: buildPerShareFull_def)
  from calculatePerShareMetrics_mem [OF r(1)] obtain t' ys' y' d'
    where m: "(t', ys') \<in> set (indexByTickerYear longTable)" "(y', d') \<in> set ys'"
      "0 < getValidShares d'" "r = calculateRowMetrics t' y' (getValidShares d') d'"
    by blast
  from m(4) r(2,3) have "t' = t" "y' = y"
    by (simp_all add: calculateRowMetrics_key)
  with m(1,2) assms(1,2) have "d' = d"
    using wellKeyed_unique [OF indexByTickerYear_wellKeyed] by blast
  with m(3) assms(3,4) show False
    by (simp add: getValidShares_pos)
qed

text \<open>
  At \<open>sampleLong\<close>: the year 2019 of JFC has 0 shares in the income statement and
  \<open>null\<close> in the balance sheet, and the output holds the year 2020 only.
\<close>

lemma buildPerShareFull_skips_example:
  "map out_FiscalYear (buildPerShareFull sampleLong) = [2020]"
  "map out_FiscalYear (buildPerShare_Full sampleLong) = [2020]"
  by (simp_all add: sample_rows sample_rows_gs)

text \<open>
  On the finite numbers the script's share count is positive exactly when one of the two
  counts is.
\<close>

lemma ps_validShares_pos:
  "0 < ps_validShares d \<longleftrightarrow>
     (\<exists>a. is_SharesDiluted d = Some a \<and> 0 < a) \<or> (\<exists>b. bs_SharesDiluted d = Some b \<and> 0 < b)"
  by (auto simp: ps_validShares_def num_gs_def Let_def split: option.splits)

text \<open>On the finite numbers the functions on all the doubles are the ones above.\<close>

lemma num_gs_ext_Fin: "num_gs_ext (map_option Fin v) = Fin (num_gs v)"
  by (cases v) (simp_all add: num_gs_ext_def num_gs_def)

lemma ps_validShares_ext_Fin:
  "ps_validShares_ext (map_option Fin (is_SharesDiluted d)) (map_option Fin (bs_SharesDiluted d))
     = Fin (ps_validShares d)"
  by (simp add: ps_validShares_ext_def ps_validShares_def num_gs_ext_Fin Let_def)

lemma toNum_ext_Fin: "toNum_ext (map_option Fin v) = toNum v"
  by (cases v) (simp_all add: toNum_ext_def toNum_def)

text \<open>
  Claim C8. A year whose diluted share count is not a positive finite number in the
  income statement nor in the balance sheet is to have no row. \<open>buildPerShareFull\<close>
  does that (\<open>buildPerShareFull_skips\<close>). The script does not when the count is
  infinite. For a year whose income-statement share cell holds the text \<open>Infinity\<close>
  and whose balance sheet has no share count: \<open>_num\<close> tests \<open>isNaN\<close> only and
  returns the infinite number, \<open>_ps_validShares_\<close> returns it, and it passes the test
  \<open>shares > 0\<close> of the loop, so the year is picked and a row is pushed, every cell of
  it a number divided by the infinite count. \<open>toNum\<close>, which the TypeScript builder
  reads the same cell with, gives \<open>null\<close> there, and \<open>getValidShares\<close> gives 0.
\<close>

theorem ps_validShares_keeps_infinite:
  "num_gs_ext (Some PosInf) = PosInf
   \<and> ps_validShares_ext (Some PosInf) None = PosInf
   \<and> gt0 (ps_validShares_ext (Some PosInf) None)
   \<and> toNum_ext (Some PosInf) = None
   \<and> getValidShares (emptyYearData\<lparr>is_SharesDiluted := toNum_ext (Some PosInf)\<rparr>) = 0"
  by (simp add: num_gs_ext_def ps_validShares_ext_def toNum_ext_def getValidShares_def
      emptyYearData_def toNum_def Let_def)

subsection \<open>Failed divisions\<close>

lemma safeDiv_None_iff: "safeDiv a b = None \<longleftrightarrow> a = None \<or> b = None \<or> b = Some 0"
  by (auto simp: safeDiv_def toNum_def split: option.splits)

lemma round3_None_iff: "round3 v = None \<longleftrightarrow> v = None"
  by (auto simp: round3_def toNum_def split: option.splits)

text \<open>
  In \<open>calculateRowMetrics\<close> a cell is \<open>null\<close>, which the sheet shows blank, when its
  division failed: the numerator is \<open>null\<close>, or the denominator is \<open>null\<close> or zero.
\<close>

lemma calculateRowMetrics_blank:
  "is_Revenue d = None \<or> s = 0 \<Longrightarrow> RevenuePerShare (calculateRowMetrics t y s d) = None"
  "is_GrossProfit d = None \<or> s = 0 \<Longrightarrow> GrossProfitPerShare (calculateRowMetrics t y s d) = None"
  "is_OperatingIncome d = None \<or> s = 0
     \<Longrightarrow> OperatingIncomePerShare (calculateRowMetrics t y s d) = None"
  "is_NetIncome d = None \<or> s = 0 \<Longrightarrow> NetIncomePerShare (calculateRowMetrics t y s d) = None"
  "firstNonNull [bs_Equity d, bs_EquityAlt1 d, bs_EquityAlt2 d, bs_EquityAlt3 d] = None \<or> s = 0
     \<Longrightarrow> EquityPerShare (calculateRowMetrics t y s d) = None"
  "firstNonNull [bs_Debt d, bs_DebtAlt1 d, bs_DebtAlt2 d] = None
     \<or> firstNonNull [bs_Equity d, bs_EquityAlt1 d, bs_EquityAlt2 d, bs_EquityAlt3 d] = None
     \<or> firstNonNull [bs_Equity d, bs_EquityAlt1 d, bs_EquityAlt2 d, bs_EquityAlt3 d] = Some 0
     \<Longrightarrow> DebtToEquity (calculateRowMetrics t y s d) = None"
  by (simp_all add: calculateRowMetrics_def Let_def round3_None_iff safeDiv_None_iff)
    (auto simp: toNum_def split: option.splits)

text \<open>The script's division returns 0 when the denominator is 0.\<close>

lemma ps_safeDiv_zero: "ps_safeDiv n 0 = 0"
  by (simp add: ps_safeDiv_def)

text \<open>In the script's row a missing revenue gives the cell 0, for every year.\<close>

lemma ps_row_missing_revenue:
  assumes "is_Revenue d = None"
  shows "RevenuePerShare (ps_row t y s d) = Some 0"
  using assms
  by (simp add: ps_row_def num_gs_def ps_safeDiv_def ps_r3_def Math_round_def Let_def)

text \<open>
  Claim C9. Every failed division is to give a blank cell, never zero.
  \<open>calculateRowMetrics\<close> does so (\<open>calculateRowMetrics_blank\<close>). The script's builder
  does not: for a year that has 100 diluted shares and no other field, every numerator
  is missing and the equity is missing; the script writes 0 in all six cells, where
  \<open>calculateRowMetrics\<close> on the same data leaves all six \<open>null\<close>.
\<close>

theorem ps_row_zero_fills:
  "ps_row ''JFC.PSE'' 2020 100 sharesOnly =
     \<lparr> out_Ticker = ''JFC.PSE'', out_FiscalYear = 2020, RevenuePerShare = Some 0,
       GrossProfitPerShare = Some 0, OperatingIncomePerShare = Some 0,
       NetIncomePerShare = Some 0, EquityPerShare = Some 0, DebtToEquity = Some 0 \<rparr>
   \<and> ps_validShares sharesOnly = 100
   \<and> calculateRowMetrics ''JFC.PSE'' 2020 100 sharesOnly =
     \<lparr> out_Ticker = ''JFC.PSE'', out_FiscalYear = 2020, RevenuePerShare = None,
       GrossProfitPerShare = None, OperatingIncomePerShare = None,
       NetIncomePerShare = None, EquityPerShare = None, DebtToEquity = None \<rparr>"
  by (simp add: ps_row_def calculateRowMetrics_def sharesOnly_def emptyYearData_def num_gs_def
      ps_safeDiv_def ps_r3_def ps_validShares_def Math_round_def toNum_def safeDiv_def
      round3_def Let_def)

subsection \<open>The exchange suffix\<close>

lemma ps_readLongTable_tickers: "Ticker ` set (ps_readLongTable rows) = Ticker ` set rows"
  by (auto simp: ps_readLongTable_def image_iff)

lemma tickers_rows:
  "map out_Ticker (buildPerShareFull tickersLong) = [''A.PSEB'', ''ALI.PSE'', ''JFC.PSE'']"
  "map out_Ticker (buildPerShare_Full tickersLong) = [''A.PSEB'', ''ALI.PSE'', ''JFC.PSE'']"
  by code_simp+

text \<open>
  Claim C10, as stated, fails for a source ticker that contains \<open>.PSE\<close> elsewhere
  than at its end. The builders test \<open>Ticker.includes('.PSE')\<close>. The source ticker
  \<open>A.PSEB\<close> passes that test and is written to the output as it is: an output ticker
  that does not carry the suffix.
\<close>

theorem output_ticker_without_suffix:
  "map Ticker tickersLong = [''JFC'', ''ALI.PSE'', ''A.PSEB'']
   \<and> map out_Ticker (buildPerShareFull tickersLong) = [''A.PSEB'', ''ALI.PSE'', ''JFC.PSE'']
   \<and> map out_Ticker (buildPerShare_Full tickersLong) = [''A.PSEB'', ''ALI.PSE'', ''JFC.PSE'']
   \<and> \<not> endsWith ''A.PSEB'' ''.PSE''"
  by code_simp

text \<open>
  Claim C10, amended. Every ticker in the output of the per-share builder contains the
  literal \<open>.PSE\<close>, at its end or elsewhere: it is the ticker of a source row,
  unchanged when that already contains \<open>.PSE\<close> anywhere, and with \<open>.PSE\<close> appended
  at its end otherwise. So the keys of the output can differ from the source's
  tickers. This holds for \<open>buildPerShareFull\<close> and for the script's
  \<open>buildPerShare_Full\<close>.
\<close>

theorem output_ticker_has_suffix:
  assumes "r \<in> set (buildPerShareFull longTable) \<or> r \<in> set (buildPerShare_Full longTable)"
  shows "str_includes (out_Ticker r) ''.PSE''
    \<and> (\<exists>row \<in> set longTable.
          out_Ticker r = (if str_includes (Ticker row) ''.PSE'' then Ticker row
                          else Ticker row @ ''.PSE'')
          \<and> (\<not> str_includes (Ticker row) ''.PSE'' \<longrightarrow> endsWith (out_Ticker r) ''.PSE''))"
proof -
  have "\<exists>t \<in> Ticker ` set longTable. out_Ticker r = normTicker t"
    using assms
  proof
    assume "r \<in> set (buildPerShareFull longTable)"
    then have "r \<in> set (calculatePerShareMetrics (indexByTickerYear longTable))"
      by (simp add: buildPerShareFull_def)
    from calculatePerShareMetrics_mem [OF this]
    obtain ys where "(out_Ticker r, ys) \<in> set (indexByTickerYear longTable)"
      by (auto simp: calculateRowMetrics_key)
    from indexByTickerYear_keys [OF this] show ?thesis
      by blast
  next
    assume "r \<in> set (buildPerShare_Full longTable)"
    from buildPerShare_Full_mem [OF this]
    obtain ys where "(out_Ticker r, ys) \<in> set (indexByTickerYear (ps_readLongTable longTable))"
      by (auto simp: ps_row_key)
    from indexByTickerYear_keys [OF this]
    have "\<exists>t \<in> Ticker ` set (ps_readLongTable longTable). out_Ticker r = normTicker t"
      by blast
    then show ?thesis
      by (simp only: ps_readLongTable_tickers)
  qed
  then obtain row where row: "row \<in> set longTable" "out_Ticker r = normTicker (Ticker row)"
    by blast
  have e: "endsWith (t @ ''.PSE'') ''.PSE''" for t
    by (simp add: endsWith_def)
  from row show ?thesis
    using normTicker_includes [of "Ticker row"] e [of "Ticker row"]
    by (auto simp: normTicker_def)
qed

text \<open>
  The theorem at \<open>tickersLong\<close>, in both builders: the source ticker \<open>JFC\<close> has
  \<open>.PSE\<close> appended, and the source tickers \<open>ALI.PSE\<close> and \<open>A.PSEB\<close>, which
  contain it, are kept as they are.
\<close>

theorem output_ticker_has_suffix_witness:
  "(\<exists>r. r \<in> set (buildPerShareFull tickersLong) \<and> out_Ticker r = ''JFC.PSE''
      \<and> str_includes (out_Ticker r) ''.PSE'')
   \<and> (\<exists>r. r \<in> set (buildPerShareFull tickersLong) \<and> out_Ticker r = ''A.PSEB''
      \<and> str_includes (out_Ticker r) ''.PSE'')
   \<and> (\<exists>r. r \<in> set (buildPerShare_Full tickersLong) \<and> out_Ticker r = ''ALI.PSE''
      \<and> str_includes (out_Ticker r) ''.PSE'')
   \<and> map Ticker tickersLong = [''JFC'', ''ALI.PSE'', ''A.PSEB'']"
proof -
  have t: "map Ticker tickersLong = [''JFC'', ''ALI.PSE'', ''A.PSEB'']"
    by (simp add: tickersLong_def)
  have "''JFC.PSE'' \<in> set (map out_Ticker (buildPerShareFull tickersLong))"
    and "''A.PSEB'' \<in> set (map out_Ticker (buildPerShareFull tickersLong))"
    and "''ALI.PSE'' \<in> set (map out_Ticker (buildPerShare_Full tickersLong))"
    by (simp_all only: tickers_rows) simp_all
  then obtain r1 r2 r3
    where r1: "r1 \<in> set (buildPerShareFull tickersLong)" "out_Ticker r1 = ''JFC.PSE''"
      and r2: "r2 \<in> set (buildPerShareFull tickersLong)" "out_Ticker r2 = ''A.PSEB''"
      and r3: "r3 \<in> set (buildPerShare_Full tickersLong)" "out_Ticker r3 = ''ALI.PSE''"
    by auto
  have "str_includes (out_Ticker r1) ''.PSE''"
    using output_ticker_has_suffix [of r1 tickersLong] r1(1) by blast
  moreover have "str_includes (out_Ticker r2) ''.PSE''"
    using output_ticker_has_suffix [of r2 tickersLong] r2(1) by blast
  moreover have "str_includes (out_Ticker r3) ''.PSE''"
    using output_ticker_has_suffix [of r3 tickersLong] r3(1) by blast
  ultimately show ?thesis
    using r1 r2 r3 t by blast
qed

section \<open>Properties of the upsert engine\<close>

subsection \<open>Strings and header indices\<close>

lemma dropTrailing_idem: "dropTrailing P (dropTrailing P xs) = dropTrailing P xs"
  by (simp add: dropTrailing_def)

lemma dropWhile_dropTrailing:
  assumes "dropWhile P xs = xs"
  shows "dropWhile P (dropTrailing P xs) = dropTrailing P xs"
proof (cases xs)
  case Nil
  then show ?thesis by (simp add: dropTrailing_def)
next
  case (Cons x xs')
  with assms have nP: "\<not> P x" by (auto split: if_splits dest: dropWhile_eq_Cons_conv[THEN iffD1])
  have "rev (x # xs') = rev xs' @ [x]" by simp
  then have "dropWhile P (rev (x # xs')) = dropWhile P (rev xs') @ [x]"
    using nP by (simp add: dropWhile_append)
  then obtain ys where "dropWhile P (rev (x # xs')) = ys @ [x]"
    by blast
  then have "dropTrailing P xs = x # rev ys"
    using Cons by (simp add: dropTrailing_def)
  then show ?thesis using nP by simp
qed

lemma trim_idem: "trim (trim s) = trim s"
proof -
  have "dropWhile isSpace (dropWhile isSpace s) = dropWhile isSpace s"
    by simp
  then have "dropWhile isSpace (trim s) = trim s"
    unfolding trim_def by (rule dropWhile_dropTrailing)
  then show ?thesis
    by (simp add: trim_def dropTrailing_idem)
qed

lemma buildHeaderIndexFrom_lookup:
  "buildHeaderIndexFrom i hs index name = Some j \<Longrightarrow>
     (i \<le> j \<and> j < i + length hs \<and> trim (hs ! (j - i)) = name) \<or> index name = Some j"
proof (induction hs arbitrary: i index)
  case Nil
  then show ?case by simp
next
  case (Cons h hs)
  have "buildHeaderIndexFrom (Suc i) hs (indexSet index (trim h) i) name = Some j"
    using Cons.prems by simp
  from Cons.IH [OF this]
  have "(Suc i \<le> j \<and> j < Suc i + length hs \<and> trim (hs ! (j - Suc i)) = name)
      \<or> (indexSet index (trim h) i) name = Some j" .
  then show ?case
  proof
    assume 1: "Suc i \<le> j \<and> j < Suc i + length hs \<and> trim (hs ! (j - Suc i)) = name"
    then have "(h # hs) ! (j - i) = hs ! (j - Suc i)"
      by (simp add: nth_Cons')
    with 1 show ?thesis by auto
  next
    assume 2: "(indexSet index (trim h) i) name = Some j"
    show ?thesis
    proof (cases "name = trim h \<and> trim h \<noteq> ''__proto__''")
      case True
      with 2 have "j = i" by (simp add: indexSet_def)
      with True show ?thesis by simp
    next
      case False
      with 2 have "index name = Some j" by (auto simp: indexSet_def split: if_splits)
      then show ?thesis by simp
    qed
  qed
qed

lemma buildHeaderIndexFrom_dom:
  "dom (buildHeaderIndexFrom i hs index) = dom index \<union> (trim ` set hs - {''__proto__''})"
  by (induction hs arbitrary: i index) (auto simp: indexSet_def)

lemma buildHeaderIndex_dom: "dom (buildHeaderIndex hs) = trim ` set hs - {''__proto__''}"
  by (simp add: buildHeaderIndex_def buildHeaderIndexFrom_dom)

lemma readHeader_trimmed: "trim ` set (readHeader row) = set (readHeader row)"
  by (auto simp: readHeader_def trim_idem image_iff)

lemma sheetHeader_trimmed: "trim ` set (sheetHeader sh) = set (sheetHeader sh)"
  by (simp add: sheetHeader_def Let_def readHeader_trimmed)

lemma headerIndex_None_iff:
  "buildHeaderIndex (sheetHeader sh) col = None
     \<longleftrightarrow> col \<notin> set (sheetHeader sh) \<or> col = ''__proto__''"
proof -
  have "col \<in> dom (buildHeaderIndex (sheetHeader sh))
      \<longleftrightarrow> col \<in> set (sheetHeader sh) \<and> col \<noteq> ''__proto__''"
    unfolding buildHeaderIndex_dom sheetHeader_trimmed by blast
  then show ?thesis by (auto simp: domIff)
qed

text \<open>
  The read \<open>headerIndex[col]\<close> is \<open>undefined\<close> exactly for a name that is neither an
  own property of the index nor inherited.
\<close>

lemma indexGet_Undefined_iff:
  "indexGet index name = Undefined \<longleftrightarrow> index name = None \<and> name \<notin> set inheritedNames"
  by (simp add: indexGet_def split: option.splits)

lemma indexGet_Index_iff: "indexGet index name = Index i \<longleftrightarrow> index name = Some i"
  by (simp add: indexGet_def split: option.splits)

lemma indexHas_iff: "indexHas index name \<longleftrightarrow> indexGet index name \<noteq> Undefined"
  by (auto simp: indexHas_def indexGet_Undefined_iff)

lemma keyIndicesOf_None_iff:
  "keyIndicesOf headerIndex cols = None
     \<longleftrightarrow> (\<exists>col \<in> set cols. indexGet headerIndex col = Undefined)"
  by (induction cols) (auto simp: Let_def)

lemma length_getValues: "length (getValues sh r c) = r"
  by (simp add: getValues_def)

lemma length_readAll: "length (readAll sh) = getLastRow sh"
  by (simp add: readAll_def Let_def length_getValues)

lemma buildKeyMap_unfold:
  "buildKeyMap sh keyColumns =
     (if getLastRow sh < 2 then Map.empty
      else case keyIndicesOf (buildHeaderIndex (sheetHeader sh)) keyColumns of
             None \<Rightarrow> Map.empty
           | Some keyIndices \<Rightarrow> buildKeyMapRows keyIndices 1 (tl (readAll sh)) Map.empty)"
proof (cases "getLastRow sh < 2")
  case True
  then show ?thesis by (simp add: buildKeyMap_def)
next
  case False
  then have pos: "0 < getLastRow sh" by simp
  then have ra: "readAll sh = getValues sh (getLastRow sh) (max 1 (getLastColumn sh))"
    by (simp add: readAll_def Let_def)
  have "readAll sh \<noteq> []"
    using pos length_readAll [of sh] by auto
  then have "sheetHeader sh = readHeader (hd (readAll sh))"
    by (simp add: sheetHeader_def Let_def)
  then have hdr: "readHeader (hd (readAll sh)) = sheetHeader sh"
    by simp
  show ?thesis
    unfolding buildKeyMap_def Let_def ra [symmetric] hdr using False by simp
qed

lemma buildKeyMapRows_other:
  assumes "\<forall>row \<in> set rows. \<not> (keyed ki row \<and> rowKey ki row = K)"
  shows "buildKeyMapRows ki i rows m K = m K"
  using assms by (induction rows arbitrary: i m) (auto simp: Let_def)

lemma buildKeyMapRows_last:
  assumes "j < length rows" and "keyed ki (rows ! j)" and "rowKey ki (rows ! j) = K"
    and "\<forall>j'. j < j' \<and> j' < length rows \<longrightarrow> \<not> (keyed ki (rows ! j') \<and> rowKey ki (rows ! j') = K)"
  shows "buildKeyMapRows ki i rows m K = Some (i + j + 1)"
  using assms
proof (induction rows arbitrary: i j m)
  case Nil
  then show ?case by simp
next
  case (Cons row rows)
  show ?case
  proof (cases j)
    case 0
    have "\<forall>r \<in> set rows. \<not> (keyed ki r \<and> rowKey ki r = K)"
    proof
      fix r assume "r \<in> set rows"
      then obtain n where n: "n < length rows" "rows ! n = r"
        by (auto simp: in_set_conv_nth)
      with Cons.prems(4) [rule_format, of "Suc n"] 0 show "\<not> (keyed ki r \<and> rowKey ki r = K)"
        by auto
    qed
    from buildKeyMapRows_other [OF this] Cons.prems(2,3) 0 show ?thesis
      by (simp add: Let_def)
  next
    case (Suc j0)
    have "buildKeyMapRows ki (Suc i) rows
            (if keyed ki row then m(rowKey ki row \<mapsto> i + 1) else m) K = Some (Suc i + j0 + 1)"
    proof (rule Cons.IH)
      show "j0 < length rows" using Cons.prems(1) Suc by simp
      show "keyed ki (rows ! j0)" using Cons.prems(2) Suc by simp
      show "rowKey ki (rows ! j0) = K" using Cons.prems(3) Suc by simp
      show "\<forall>j'. j0 < j' \<and> j' < length rows \<longrightarrow> \<not> (keyed ki (rows ! j') \<and> rowKey ki (rows ! j') = K)"
        using Cons.prems(4) Suc by (metis Suc_less_eq length_Cons nth_Cons_Suc)
    qed
    then show ?thesis using Suc by (simp add: Let_def)
  qed
qed

subsection \<open>The key index\<close>

text \<open>
  When a key column is neither a header name of the sheet nor a name that every object
  inherits, \<open>buildKeyMap\<close> returns the empty map, for every sheet.
\<close>

lemma buildKeyMap_missing_column:
  assumes "col \<in> set keyColumns" and "col \<notin> set (sheetHeader sh)"
    and "col \<notin> set inheritedNames"
  shows "buildKeyMap sh keyColumns = Map.empty"
proof -
  have "indexGet (buildHeaderIndex (sheetHeader sh)) col = Undefined"
    using assms(2,3) by (simp add: indexGet_Undefined_iff headerIndex_None_iff)
  then have "keyIndicesOf (buildHeaderIndex (sheetHeader sh)) keyColumns = None"
    unfolding keyIndicesOf_None_iff using assms(1) by blast
  then show ?thesis
    by (simp add: buildKeyMap_unfold)
qed

text \<open>
  When the read of every key column gave an index and the data row \<open>j\<close> (counted from
  0 after the header) is the last row with its composite key \<open>K\<close>, the map sends
  \<open>K\<close> to the row number \<open>j + 2\<close> of that row, whatever rows above it have the same
  key: the last occurrence wins.
\<close>

lemma buildKeyMap_last_wins:
  assumes "keyIndicesOf (buildHeaderIndex (sheetHeader sh)) keyColumns = Some keyIndices"
    and "j < length (tl (readAll sh))"
    and "keyed keyIndices (tl (readAll sh) ! j)"
    and "rowKey keyIndices (tl (readAll sh) ! j) = K"
    and "\<forall>j'. j < j' \<and> j' < length (tl (readAll sh))
           \<longrightarrow> \<not> (keyed keyIndices (tl (readAll sh) ! j')
                   \<and> rowKey keyIndices (tl (readAll sh) ! j') = K)"
  shows "buildKeyMap sh keyColumns K = Some (j + 2)"
proof -
  have "\<not> getLastRow sh < 2"
    using assms(2) length_readAll [of sh] by auto
  moreover have "buildKeyMapRows keyIndices 1 (tl (readAll sh)) Map.empty K = Some (1 + j + 1)"
    using assms(2-5) by (intro buildKeyMapRows_last) blast+
  ultimately show ?thesis
    using assms(1) by (simp add: buildKeyMap_unfold)
qed

text \<open>
  On \<open>longSheet\<close>: it has no column \<open>Year\<close>, and the map for the key columns
  \<open>Ticker\<close> and \<open>Year\<close> is empty; its rows 2 and 3 have the same key for the key
  columns \<open>Ticker\<close> and \<open>Field\<close>, which the map sends to 3.
\<close>

lemma buildKeyMap_longSheet:
  "buildKeyMap longSheet [''Ticker'', ''Year''] = Map.empty"
  "buildKeyMap longSheet [''Ticker'', ''Field''] (''JFC'' @ keySep @ ''Revenue'') = Some 3"
proof -
  have "''Year'' \<in> set [''Ticker'', ''Year'']" "''Year'' \<notin> set (sheetHeader longSheet)"
    "''Year'' \<notin> set inheritedNames"
    by code_simp+
  then show "buildKeyMap longSheet [''Ticker'', ''Year''] = Map.empty"
    by (rule buildKeyMap_missing_column)
  show "buildKeyMap longSheet [''Ticker'', ''Field''] (''JFC'' @ keySep @ ''Revenue'') = Some 3"
    by code_simp
qed


subsection \<open>Upsert of a long table\<close>

text \<open>
  Claim C3. A later row of a batch with the key of an earlier new row is to update the
  row appended for the earlier one, so that no key is duplicated and the later row
  wins. \<open>upsertLongTable\<close> does not do that. On a sheet that holds the header only,
  the batch of two rows with the key (JFC, Revenue) and the values 1 and 2: the first
  row goes to the appends and its key is mapped to row 2; the second row becomes an
  update of row 2; the updates are written first, which puts the second row in row 2,
  and the appends are written below the last row the sheet has by then, which puts the
  first row in row 3. The sheet ends with both rows, the later one above the earlier
  one, and a key map built from it sends the key to row 3, the earlier row.
\<close>

theorem upsertLongTable_duplicates_new_key:
  "buildKeyMap longHeaderOnly [''Ticker'', ''Field''] (''JFC'' @ keySep @ ''Revenue'') = None
   \<and> map_sum id fst
       (upsertLongTable longHeaderOnly (buildKeyMap longHeaderOnly [''Ticker'', ''Field''])
          [''Ticker'', ''Field'', ''Value''] twiceBatch [''Ticker'', ''Field''])
     = Inr [[Str ''Ticker'', Str ''Field'', Str ''Value''],
            [Str ''JFC'', Str ''Revenue'', Num ''2''],
            [Str ''JFC'', Str ''Revenue'', Num ''1'']]
   \<and> buildKeyMap [[Str ''Ticker'', Str ''Field'', Str ''Value''],
                    [Str ''JFC'', Str ''Revenue'', Num ''2''],
                    [Str ''JFC'', Str ''Revenue'', Num ''1'']] [''Ticker'', ''Field'']
        (''JFC'' @ keySep @ ''Revenue'') = Some 3"
  by code_simp

text \<open>
  With a batch whose new key comes once, the call does what the claim says: on
  \<open>longSheet\<close> the row of the key that the sheet has is overwritten where the key
  map points, and the row of the new key is appended below.
\<close>

lemma upsertLongTable_mixed:
  "map_sum id fst
     (upsertLongTable longSheet (buildKeyMap longSheet [''Ticker'', ''Field''])
        [''Ticker'', ''Field'', ''Value''] mixedBatch [''Ticker'', ''Field''])
   = Inr [[Str ''Ticker'', Str ''Field'', Str ''Value''],
          [Str ''JFC'', Str ''Revenue'', Num ''1''],
          [Str ''JFC'', Str ''Revenue'', Num ''9''],
          [Str ''ALI'', Str ''Revenue'', Num ''3''],
          [Str ''SM'', Str ''Revenue'', Num ''5'']]"
  by code_simp

subsection \<open>Upsert by one key, twice\<close>

text \<open>
  Claim C6. Applying a batch a second time is to change nothing. \<open>upsertByKey\<close>
  breaks this whenever the header of the sheet lacks a column to write. The columns it
  adds go to its array \<open>header\<close>, which is a copy of the first row; the first row of
  the table it writes back only gets blank cells. So the sheet never shows the names of
  the added columns, and the next call adds the columns again, to the right of the
  first ones. On the sheet with the header \<open>Ticker\<close> only and the batch of AAPL with
  \<open>OpPS_Latest = 0.3\<close>, the first call gives a sheet of two columns and the second
  one of three. On the empty sheet the first call puts the row of AAPL in row 1, where
  the header belongs, and the second call reads that row as the header. On a sheet
  whose header has every column (\<open>metricsSheet\<close>) the second call changes nothing.
\<close>

theorem upsertByKey_twice_differs:
  "upsertByKey headerOnly ''Ticker'' [''Ticker'', ''OpPS_Latest''] oneMetric True
     = [[Str ''Ticker'', Str []], [Str ''AAPL'', Num ''0.3'']]
   \<and> upsertByKey (upsertByKey headerOnly ''Ticker'' [''Ticker'', ''OpPS_Latest''] oneMetric True)
       ''Ticker'' [''Ticker'', ''OpPS_Latest''] oneMetric True
     = [[Str ''Ticker'', Str [], Str []], [Str ''AAPL'', Num ''0.3'', Num ''0.3'']]
   \<and> upsertByKey [] ''Ticker'' [''Ticker'', ''OpPS_Latest''] oneMetric True
     = [[Str ''AAPL'', Num ''0.3'']]
   \<and> upsertByKey (upsertByKey [] ''Ticker'' [''Ticker'', ''OpPS_Latest''] oneMetric True)
       ''Ticker'' [''Ticker'', ''OpPS_Latest''] oneMetric True
     = [[Str ''AAPL'', Num ''0.3'', Str [], Str []], [Str [], Str [], Str ''AAPL'', Num ''0.3'']]
   \<and> upsertByKey (upsertByKey metricsSheet ''Ticker'' [''Ticker'', ''OpPS_Latest''] metricsBatch True)
       ''Ticker'' [''Ticker'', ''OpPS_Latest''] metricsBatch True
     = upsertByKey metricsSheet ''Ticker'' [''Ticker'', ''OpPS_Latest''] metricsBatch True"
  by code_simp

subsection \<open>Upsert by one key: the frame\<close>

lemma jsSet_length: "length row \<le> length (jsSet row c v)"
  by (simp add: jsSet_def)

lemma jsSet_nth_other: "c \<noteq> c' \<Longrightarrow> c < length row \<Longrightarrow> jsSet row c' v ! c = row ! c"
  by (simp add: jsSet_def nth_append)

lemma jsSet_nth_same: "jsSet row c v ! c = v"
  by (simp add: jsSet_def nth_append)

lemma writtenColumn_Cons:
  "writtenColumn hi (col # cs) c \<longleftrightarrow> hi col = Some c \<or> writtenColumn hi cs c"
  by (simp add: writtenColumn_def)

lemma writtenColumn_iff: "writtenColumn hi cs c \<longleftrightarrow> (\<exists>col \<in> set cs. hi col = Some c)"
  by (simp add: writtenColumn_def list_ex_iff)

text \<open>
  A write through the index changes a cell only for an own property of the index: with
  an inherited name the subscript is a function, and no cell changes.
\<close>

lemma writeCols_Cons:
  "writeCols hi obj (col # cs) row =
     writeCols hi obj cs
       (case hi col of None \<Rightarrow> row
        | Some colIdx \<Rightarrow> if hasOwn obj col then jsSet row colIdx (nullToEmpty (getProp obj col))
                         else row)"
  by (simp add: indexGet_def setAt_def Let_def split: option.splits)

lemma UL_writeCols_Cons:
  "UL_writeCols idx obj (col # cs) row =
     UL_writeCols idx obj cs
       (case idx col of None \<Rightarrow> row
        | Some c \<Rightarrow> if hasOwn obj col then jsSet row c (getProp obj col) else row)"
  by (simp add: indexGet_def setAt_def Let_def split: option.splits)

declare writeCols.simps(2) [simp del] UL_writeCols.simps(2) [simp del]
declare writeCols_Cons [simp] UL_writeCols_Cons [simp]

lemma writeCols_length: "length row \<le> length (writeCols hi obj cs row)"
proof (induction cs arbitrary: row)
  case Nil
  then show ?case by simp
next
  case (Cons col cs)
  let ?row' = "case hi col of None \<Rightarrow> row
      | Some colIdx \<Rightarrow> if hasOwn obj col then jsSet row colIdx (nullToEmpty (getProp obj col)) else row"
  have "length row \<le> length ?row'"
    using jsSet_length [of row] by (auto split: option.splits)
  also have "\<dots> \<le> length (writeCols hi obj cs ?row')"
    by (rule Cons.IH)
  finally show ?case by simp
qed

lemma writeCols_other:
  assumes "\<not> writtenColumn hi cs c" and "c < length row"
  shows "writeCols hi obj cs row ! c = row ! c"
  using assms
proof (induction cs arbitrary: row)
  case Nil
  then show ?case by simp
next
  case (Cons col cs)
  from Cons.prems(1) have nc: "hi col \<noteq> Some c" and rest: "\<not> writtenColumn hi cs c"
    by (simp_all add: writtenColumn_Cons)
  let ?row' = "case hi col of None \<Rightarrow> row
      | Some colIdx \<Rightarrow> if hasOwn obj col then jsSet row colIdx (nullToEmpty (getProp obj col)) else row"
  have len: "c < length ?row'"
    using Cons.prems(2) jsSet_length [of row] by (auto split: option.splits intro: less_le_trans)
  have same: "?row' ! c = row ! c"
    using nc Cons.prems(2) by (auto split: option.splits simp: jsSet_nth_other)
  have "writeCols hi obj (col # cs) row ! c = writeCols hi obj cs ?row' ! c"
    by simp
  also have "\<dots> = ?row' ! c"
    using rest len by (rule Cons.IH)
  finally show ?case using same by simp
qed

lemma truthy_nullToEmpty: "truthy v \<Longrightarrow> nullToEmpty v = v"
  by (cases v) (simp_all add: nullToEmpty_def)

lemma writeCols_key:
  assumes "\<forall>col \<in> set cs. hi col = Some k \<longrightarrow> col = keyColumn"
    and "truthy (getProp obj keyColumn)" and "k < length row" and "truthy (row ! k)"
  shows "truthy (writeCols hi obj cs row ! k)"
  using assms
proof (induction cs arbitrary: row)
  case Nil
  then show ?case by simp
next
  case (Cons col cs)
  let ?row' = "case hi col of None \<Rightarrow> row
      | Some colIdx \<Rightarrow> if hasOwn obj col then jsSet row colIdx (nullToEmpty (getProp obj col)) else row"
  have len: "k < length ?row'"
    using Cons.prems(3) jsSet_length [of row] by (auto split: option.splits intro: less_le_trans)
  have tr: "truthy (?row' ! k)"
  proof (cases "hi col = Some k \<and> hasOwn obj col")
    case True
    then have "col = keyColumn" using Cons.prems(1) by simp
    with True have "?row' ! k = nullToEmpty (getProp obj keyColumn)"
      by (simp add: jsSet_nth_same)
    then show ?thesis using Cons.prems(2) by (simp add: truthy_nullToEmpty)
  next
    case False
    then have "?row' ! k = row ! k"
      using Cons.prems(3) by (auto split: option.splits simp: jsSet_nth_other)
    then show ?thesis using Cons.prems(4) by simp
  qed
  have "writeCols hi obj (col # cs) row ! k = writeCols hi obj cs ?row' ! k"
    by simp
  moreover have "truthy (writeCols hi obj cs ?row' ! k)"
    using Cons.prems(1,2) len tr by (intro Cons.IH) auto
  ultimately show ?case by simp
qed

lemma keyOf_nonempty_truthy: "keyOf v \<noteq> [] \<Longrightarrow> truthy v"
  by (cases "truthy v") (simp_all add: keyOf_def orEmpty_def trim_def dropTrailing_def)


lemma frameInv_append:
  assumes inv: "frameInv P hl hi cols k orig data"
    and new: "hl \<le> length new" "\<forall>c < hl. \<not> writtenColumn hi cols c \<longrightarrow> new ! c = blank"
      "P (new ! k)"
  shows "frameInv P hl hi cols k orig (data @ [new])"
proof -
  from inv have len: "length orig \<le> length data"
    by (simp add: frameInv_def)
  show ?thesis
    unfolding frameInv_def
  proof (intro conjI allI impI)
    show "length orig \<le> length (data @ [new])" using len by simp
  next
    fix i assume i: "i < length orig"
    then have "(data @ [new]) ! i = data ! i" using len by (simp add: nth_append)
    with inv i show "length (orig ! i) \<le> length ((data @ [new]) ! i)"
      by (simp add: frameInv_def)
  next
    fix i c assume i: "i < length orig" and c: "c < length (orig ! i)"
      and w: "\<not> writtenColumn hi cols c"
    then have "(data @ [new]) ! i = data ! i" using len by (simp add: nth_append)
    with inv i c w show "(data @ [new]) ! i ! c = orig ! i ! c"
      by (simp add: frameInv_def)
  next
    fix i assume i: "length orig \<le> i \<and> i < length (data @ [new])"
    show "hl \<le> length ((data @ [new]) ! i)"
    proof (cases "i < length data")
      case True
      with inv i show ?thesis by (simp add: frameInv_def nth_append)
    next
      case False
      with i have "i = length data" by simp
      with new(1) show ?thesis by simp
    qed
  next
    fix i c assume i: "length orig \<le> i \<and> i < length (data @ [new])" and c: "c < hl"
      and w: "\<not> writtenColumn hi cols c"
    show "(data @ [new]) ! i ! c = blank"
    proof (cases "i < length data")
      case True
      with inv i c w show ?thesis by (simp add: frameInv_def nth_append)
    next
      case False
      with i have "i = length data" by simp
      with new(2) c w show ?thesis by simp
    qed
  next
    fix i assume i: "length orig \<le> i \<and> i < length (data @ [new])"
    show "P ((data @ [new]) ! i ! k)"
    proof (cases "i < length data")
      case True
      with inv i show ?thesis by (simp add: frameInv_def nth_append)
    next
      case False
      with i have "i = length data" by simp
      with new(3) show ?thesis by simp
    qed
  qed
qed

lemma frameInv_update:
  assumes inv: "frameInv P hl hi cols k orig data" and r: "r < length data"
    and len: "length (data ! r) \<le> length row'"
    and other: "\<forall>c < length (data ! r). \<not> writtenColumn hi cols c \<longrightarrow> row' ! c = data ! r ! c"
    and key: "P (data ! r ! k) \<and> k < length (data ! r) \<longrightarrow> P (row' ! k)"
    and khl: "k < hl"
  shows "frameInv P hl hi cols k orig (data[r := row'])"
  unfolding frameInv_def
proof (intro conjI allI impI)
  show "length orig \<le> length (data[r := row'])"
    using inv by (simp add: frameInv_def)
next
  fix i assume i: "i < length orig"
  from inv i have "length (orig ! i) \<le> length (data ! i)"
    by (simp add: frameInv_def)
  then show "length (orig ! i) \<le> length (data[r := row'] ! i)"
    using len r by (cases "i = r") auto
next
  fix i c assume i: "i < length orig" and c: "c < length (orig ! i)"
    and w: "\<not> writtenColumn hi cols c"
  from inv i c w have a: "length (orig ! i) \<le> length (data ! i)" "data ! i ! c = orig ! i ! c"
    by (simp_all add: frameInv_def)
  show "data[r := row'] ! i ! c = orig ! i ! c"
  proof (cases "i = r")
    case True
    then have "data[r := row'] ! i ! c = row' ! c" using r by simp
    also have "\<dots> = data ! r ! c" using other a(1) c w True by auto
    finally show ?thesis using a(2) True by simp
  next
    case False
    then show ?thesis using a(2) by simp
  qed
next
  fix i assume i: "length orig \<le> i \<and> i < length (data[r := row'])"
  with inv have "hl \<le> length (data ! i)" by (simp add: frameInv_def)
  then show "hl \<le> length (data[r := row'] ! i)"
    using len r by (cases "i = r") auto
next
  fix i c assume i: "length orig \<le> i \<and> i < length (data[r := row'])" and c: "c < hl"
    and w: "\<not> writtenColumn hi cols c"
  with inv have a: "hl \<le> length (data ! i)" "data ! i ! c = blank"
    by (simp_all add: frameInv_def)
  show "data[r := row'] ! i ! c = blank"
  proof (cases "i = r")
    case True
    then have "data[r := row'] ! i ! c = row' ! c" using r by simp
    also have "\<dots> = data ! r ! c" using other a(1) c w True by auto
    finally show ?thesis using a(2) True by simp
  next
    case False
    then show ?thesis using a(2) by simp
  qed
next
  fix i assume i: "length orig \<le> i \<and> i < length (data[r := row'])"
  with inv have a: "hl \<le> length (data ! i)" "P (data ! i ! k)"
    by (simp_all add: frameInv_def)
  show "P (data[r := row'] ! i ! k)"
  proof (cases "i = r")
    case True
    then show ?thesis using key a khl r by auto
  next
    case False
    then show ?thesis using a(2) by simp
  qed
qed

lemma upsertObject_frame:
  assumes inv: "frameInv truthy hl hi cols k orig data"
    and kc: "keyColumn \<in> set cols" and hk: "hi keyColumn = Some k" and khl: "k < hl"
    and inj: "\<forall>col. hi col = Some k \<longrightarrow> col = keyColumn"
  shows "frameInv truthy hl hi cols k orig (fst (upsertObject hl hi keyColumn (Index k) cols obj (data, m)))"
proof (cases "keyOf (getProp obj keyColumn) = []")
  case True
  then show ?thesis using inv by (simp add: upsertObject_def)
next
  case False
  define key where "key = keyOf (getProp obj keyColumn)"
  have key: "key \<noteq> []" using False by (simp add: key_def)
  have tk: "truthy (getProp obj keyColumn)"
    using False by (rule keyOf_nonempty_truthy)
  have wk: "writtenColumn hi cols k"
    using kc hk by (auto simp: writtenColumn_iff)
  have inj': "\<forall>col \<in> set cols. hi col = Some k \<longrightarrow> col = keyColumn"
    using inj by blast
  show ?thesis
  proof (cases "m key")
    case None
    let ?row0 = "jsSet (replicate hl blank) k (Str key)"
    let ?new = "writeCols hi obj cols ?row0"
    have l0: "hl \<le> length ?row0" using jsSet_length [of "replicate hl blank" k "Str key"] by simp
    have 1: "hl \<le> length ?new"
      using l0 writeCols_length [of ?row0 hi obj cols] by (rule le_trans)
    have 2: "\<forall>c < hl. \<not> writtenColumn hi cols c \<longrightarrow> ?new ! c = blank"
    proof (intro allI impI)
      fix c assume c: "c < hl" and w: "\<not> writtenColumn hi cols c"
      then have "c \<noteq> k" using wk by auto
      have "?new ! c = ?row0 ! c"
        using w c l0 by (intro writeCols_other) auto
      also have "\<dots> = replicate hl blank ! c"
        using \<open>c \<noteq> k\<close> c by (simp add: jsSet_nth_other)
      finally show "?new ! c = blank" using c by simp
    qed
    have 3: "truthy (?new ! k)"
      using inj' tk khl l0 key by (intro writeCols_key [where keyColumn = keyColumn])
        (auto simp: jsSet_nth_same)
    have "fst (upsertObject hl hi keyColumn (Index k) cols obj (data, m)) = data @ [?new]"
      using None False by (simp add: upsertObject_def setAt_def key_def Let_def)
    then show ?thesis
      using frameInv_append [OF inv 1 2 3] by simp
  next
    case (Some r)
    show ?thesis
    proof (cases "r < length data")
      case True
      let ?row' = "writeCols hi obj cols (data ! r)"
      have "frameInv truthy hl hi cols k orig (data[r := ?row'])"
      proof (rule frameInv_update [OF inv True _ _ _ khl])
        show "length (data ! r) \<le> length ?row'" by (rule writeCols_length)
        show "\<forall>c < length (data ! r). \<not> writtenColumn hi cols c \<longrightarrow> ?row' ! c = data ! r ! c"
          by (simp add: writeCols_other)
        show "truthy (data ! r ! k) \<and> k < length (data ! r) \<longrightarrow> truthy (?row' ! k)"
          using inj' tk by (auto intro: writeCols_key [where keyColumn = keyColumn])
      qed
      moreover have "fst (upsertObject hl hi keyColumn (Index k) cols obj (data, m)) = data[r := ?row']"
        using Some False True by (simp add: upsertObject_def setAt_def key_def Let_def)
      ultimately show ?thesis by simp
    next
      case nr: False
      have "fst (upsertObject hl hi keyColumn (Index k) cols obj (data, m)) = data"
        using Some False nr by (simp add: upsertObject_def setAt_def key_def Let_def)
      then show ?thesis using inv by simp
    qed
  qed
qed

lemma fold_upsertObject_frame:
  assumes "frameInv truthy hl hi cols k orig data"
    and "keyColumn \<in> set cols" and "hi keyColumn = Some k" and "k < hl"
    and "\<forall>col. hi col = Some k \<longrightarrow> col = keyColumn"
  shows "frameInv truthy hl hi cols k orig
           (fst (fold (upsertObject hl hi keyColumn (Index k) cols) objs (data, m)))"
  using assms(1)
proof (induction objs arbitrary: data m)
  case Nil
  then show ?case by simp
next
  case (Cons obj objs)
  obtain data' m' where st: "upsertObject hl hi keyColumn (Index k) cols obj (data, m) = (data', m')"
    by (cases "upsertObject hl hi keyColumn (Index k) cols obj (data, m)")
  from upsertObject_frame [OF Cons.prems assms(2-5), of obj m] st
  have "frameInv truthy hl hi cols k orig data'" by simp
  from Cons.IH [OF this] st show ?case by simp
qed

lemma frameInv_init: "frameInv P hl hi cols k data data"
  by (auto simp: frameInv_def)


lemma goodIndex_build: "goodIndex hs (buildHeaderIndex hs)"
  unfolding goodIndex_def buildHeaderIndex_def
proof (intro conjI allI impI)
  fix name i assume "buildHeaderIndexFrom 0 hs Map.empty name = Some i"
  from buildHeaderIndexFrom_lookup [OF this] show "i < length hs" by simp
next
  fix a b i
  assume "buildHeaderIndexFrom 0 hs Map.empty a = Some i \<and> buildHeaderIndexFrom 0 hs Map.empty b = Some i"
  then have "trim (hs ! i) = a" "trim (hs ! i) = b"
    using buildHeaderIndexFrom_lookup [of 0 hs Map.empty] by fastforce+
  then show "a = b" by simp
qed

lemma ensureColumn_good:
  assumes "goodIndex (fst hi) (snd hi)"
  shows "goodIndex (fst (ensureColumn col hi)) (snd (ensureColumn col hi))"
proof (cases hi)
  case (Pair header idx)
  show ?thesis
  proof (cases "indexHas idx col")
    case False
    then have np: "col \<noteq> ''__proto__''"
      by (auto simp: indexHas_def inheritedNames_def)
    have g: "goodIndex header idx" using assms Pair by simp
    have "goodIndex (header @ [col]) (idx(col \<mapsto> length header))"
      unfolding goodIndex_def
    proof (intro conjI allI impI)
      fix name i assume "(idx(col \<mapsto> length header)) name = Some i"
      then show "i < length (header @ [col])"
        using g by (auto simp: goodIndex_def less_Suc_eq split: if_splits)
    next
      fix a b i
      assume "(idx(col \<mapsto> length header)) a = Some i \<and> (idx(col \<mapsto> length header)) b = Some i"
      then show "a = b"
        using g unfolding goodIndex_def
        by (metis fun_upd_apply less_irrefl option.inject)
    qed
    with False np Pair show ?thesis by (simp add: ensureColumn_def indexSet_def)
  next
    case True
    with Pair assms show ?thesis by (simp add: ensureColumn_def)
  qed
qed

lemma ensureColumn_keeps:
  assumes "snd hi a = Some i"
  shows "snd (ensureColumn col hi) a = Some i"
  using assms by (cases hi) (auto simp: ensureColumn_def indexSet_def indexHas_def)

text \<open>After the step, a name that is not inherited is an own property of the index.\<close>

lemma ensureColumn_defined:
  assumes "col \<notin> set inheritedNames"
  shows "snd (ensureColumn col hi) col \<noteq> None"
proof -
  have "col \<noteq> ''__proto__''"
    using assms by (auto simp: inheritedNames_def)
  then show ?thesis
    using assms by (cases hi) (auto simp: ensureColumn_def indexSet_def indexHas_def)
qed

lemma fold_ensureColumn_good:
  assumes "goodIndex (fst hi) (snd hi)"
  shows "goodIndex (fst (fold ensureColumn cs hi)) (snd (fold ensureColumn cs hi))"
  using assms by (induction cs arbitrary: hi) (simp_all add: ensureColumn_good)

lemma fold_ensureColumn_keeps:
  assumes "snd hi a = Some i"
  shows "snd (fold ensureColumn cs hi) a = Some i"
  using assms by (induction cs arbitrary: hi) (simp_all add: ensureColumn_keeps)

lemma upsertHeader_good:
  "goodIndex (fst (upsertHeader sh keyColumn cols flag)) (snd (upsertHeader sh keyColumn cols flag))"
proof -
  let ?h = "sheetHeader sh"
  have "goodIndex (fst (?h, buildHeaderIndex ?h)) (snd (?h, buildHeaderIndex ?h))"
    by (simp add: goodIndex_build)
  then have "goodIndex (fst (ensureColumn keyColumn (?h, buildHeaderIndex ?h)))
      (snd (ensureColumn keyColumn (?h, buildHeaderIndex ?h)))"
    by (rule ensureColumn_good)
  then show ?thesis
    by (simp add: upsertHeader_def Let_def fold_ensureColumn_good)
qed

lemma upsertHeader_key:
  assumes "keyColumn \<notin> set inheritedNames"
  shows "snd (upsertHeader sh keyColumn cols flag) keyColumn \<noteq> None"
proof -
  let ?hi = "ensureColumn keyColumn (sheetHeader sh, buildHeaderIndex (sheetHeader sh))"
  obtain k where "snd ?hi keyColumn = Some k"
    using ensureColumn_defined [OF assms] by fastforce
  then show ?thesis
    by (simp add: upsertHeader_def Let_def fold_ensureColumn_keeps)
qed

lemma writeList_key: "keyColumn \<in> set (writeList keyColumn cols)"
  by (simp add: writeList_def)

lemma asCell_idem: "asCell (asCell v) = asCell v"
  by (cases v) (simp_all add: asCell_def blank_def)

lemma asCell_blank: "asCell blank = blank"
  by (simp add: asCell_def blank_def)

lemma truthy_asCell: "truthy (asCell v) = truthy v"
  by (cases v) (simp_all add: asCell_def blank_def)

lemma getValues_cells:
  assumes "i < length (getValues sh r c)" and "j < length (getValues sh r c ! i)"
  shows "asCell (getValues sh r c ! i ! j) = getValues sh r c ! i ! j"
proof -
  have "\<forall>row \<in> set (getValues sh r c). \<forall>v \<in> set row. asCell v = v"
    by (auto simp: getValues_def padTo_def asCell_idem asCell_blank dest!: in_set_takeD)
  with assms show ?thesis by (metis nth_mem)
qed

lemma readAll_cells:
  assumes "i < length (readAll sh)" and "j < length (readAll sh ! i)"
  shows "asCell (readAll sh ! i ! j) = readAll sh ! i ! j"
  using assms by (auto simp: readAll_def Let_def getValues_cells split: if_splits)


text \<open>
  \<open>upsertByKey\<close> leaves alone the columns that are not in the write list, when the
  key column has not the name of an inherited property. With the table read from the
  sheet (\<open>readAll\<close>) and the result of the call: every row of the table, and so every
  matched row, has in the result the cells it had in the columns whose index no written
  column has; every row appended by the call has a blank cell in each such column of
  the header; and the key column, which is always a written column, holds in every
  appended row a value that is not empty.
\<close>

lemma upsertByKey_frame:
  assumes ne: "incoming \<noteq> []"
    and uh: "upsertHeader sh keyColumn columnsToWrite flag = (header, headerIndex)"
    and ni: "keyColumn \<notin> set inheritedNames"
  shows "length (readAll sh) \<le> length (upsertByKey sh keyColumn columnsToWrite incoming flag)
    \<and> (\<forall>i c. i < length (readAll sh) \<and> c < length (readAll sh ! i)
          \<and> \<not> writtenColumn headerIndex (writeList keyColumn columnsToWrite) c
        \<longrightarrow> upsertByKey sh keyColumn columnsToWrite incoming flag ! i ! c = readAll sh ! i ! c)
    \<and> (\<forall>i c. length (readAll sh) \<le> i
          \<and> i < length (upsertByKey sh keyColumn columnsToWrite incoming flag)
          \<and> c < length header
          \<and> \<not> writtenColumn headerIndex (writeList keyColumn columnsToWrite) c
        \<longrightarrow> upsertByKey sh keyColumn columnsToWrite incoming flag ! i ! c = blank)
    \<and> (\<forall>i. length (readAll sh) \<le> i
          \<and> i < length (upsertByKey sh keyColumn columnsToWrite incoming flag)
        \<longrightarrow> (\<exists>k. headerIndex keyColumn = Some k \<and> k < length header
              \<and> truthy (upsertByKey sh keyColumn columnsToWrite incoming flag ! i ! k)))"
proof -
  define cols where "cols = writeList keyColumn columnsToWrite"
  define hl where "hl = length header"
  define data1 where "data1 = map (padTo hl) (readAll sh)"
  from upsertHeader_key [OF ni, of sh columnsToWrite flag] uh
  obtain k where hk: "headerIndex keyColumn = Some k" by auto
  then have hk': "indexGet headerIndex keyColumn = Index k"
    by (simp add: indexGet_Index_iff)
  from upsertHeader_good [of sh keyColumn columnsToWrite flag] uh
  have good: "goodIndex header headerIndex" by simp
  from good hk have khl: "k < hl"
    by (simp add: goodIndex_def hl_def)
  from good hk have inj: "\<forall>col. headerIndex col = Some k \<longrightarrow> col = keyColumn"
    unfolding goodIndex_def by blast
  define dataf where "dataf = fst (fold (upsertObject hl headerIndex keyColumn (Index k) cols) incoming
      (data1, indexRows (Index k) 1 (tl data1) Map.empty))"
  have res: "upsertByKey sh keyColumn columnsToWrite incoming flag = map (map asCell) dataf"
    using ne by (simp add: upsertByKey_def Let_def uh hk' dataf_def data1_def hl_def cols_def)
  have inv: "frameInv truthy hl headerIndex cols k data1 dataf"
    unfolding dataf_def
    by (rule fold_upsertObject_frame [OF frameInv_init _ hk khl inj])
      (simp add: cols_def writeList_key)
  have len1: "length data1 = length (readAll sh)"
    by (simp add: data1_def)
  have lenf: "length data1 \<le> length dataf"
    using inv by (simp add: frameInv_def)
  have 1: "length (readAll sh) \<le> length (upsertByKey sh keyColumn columnsToWrite incoming flag)"
    using lenf len1 by (simp add: res)
  have 2: "upsertByKey sh keyColumn columnsToWrite incoming flag ! i ! c = readAll sh ! i ! c"
    if i: "i < length (readAll sh)" and c: "c < length (readAll sh ! i)"
      and w: "\<not> writtenColumn headerIndex cols c" for i c
  proof -
    have d1: "data1 ! i = padTo hl (readAll sh ! i)"
      using i by (simp add: data1_def)
    then have c1: "c < length (data1 ! i)" and v1: "data1 ! i ! c = readAll sh ! i ! c"
      using c by (simp_all add: padTo_def nth_append)
    from inv i len1 have "length (data1 ! i) \<le> length (dataf ! i)"
      and "\<forall>c < length (data1 ! i). \<not> writtenColumn headerIndex cols c
            \<longrightarrow> dataf ! i ! c = data1 ! i ! c"
      by (simp_all add: frameInv_def)
    with c1 w have cf: "c < length (dataf ! i)" and vf: "dataf ! i ! c = data1 ! i ! c"
      by auto
    have "i < length dataf" using i len1 lenf by simp
    then have "map (map asCell) dataf ! i ! c = asCell (dataf ! i ! c)"
      using cf by simp
    also have "\<dots> = asCell (readAll sh ! i ! c)"
      using vf v1 by simp
    also have "\<dots> = readAll sh ! i ! c"
      using i c by (rule readAll_cells)
    finally show ?thesis by (simp add: res)
  qed
  have new: "hl \<le> length (dataf ! i)
      \<and> (\<forall>c < hl. \<not> writtenColumn headerIndex cols c \<longrightarrow> dataf ! i ! c = blank)
      \<and> truthy (dataf ! i ! k)"
    if "length (readAll sh) \<le> i" and "i < length dataf" for i
    using inv that len1 by (simp add: frameInv_def)
  have 3: "upsertByKey sh keyColumn columnsToWrite incoming flag ! i ! c = blank"
    if i: "length (readAll sh) \<le> i"
      "i < length (upsertByKey sh keyColumn columnsToWrite incoming flag)"
      and c: "c < length header" and w: "\<not> writtenColumn headerIndex cols c" for i c
  proof -
    have il: "i < length dataf" using i(2) by (simp add: res)
    from new [OF i(1) il] c w have "c < length (dataf ! i)" "dataf ! i ! c = blank"
      by (auto simp: hl_def)
    then show ?thesis using il by (simp add: res asCell_blank)
  qed
  have 4: "\<exists>k. headerIndex keyColumn = Some k \<and> k < length header
      \<and> truthy (upsertByKey sh keyColumn columnsToWrite incoming flag ! i ! k)"
    if i: "length (readAll sh) \<le> i"
      "i < length (upsertByKey sh keyColumn columnsToWrite incoming flag)" for i
  proof -
    have il: "i < length dataf" using i(2) by (simp add: res)
    from new [OF i(1) il] khl have "k < length (dataf ! i)" "truthy (dataf ! i ! k)"
      by auto
    then have "truthy (upsertByKey sh keyColumn columnsToWrite incoming flag ! i ! k)"
      using il by (simp add: res truthy_asCell)
    with hk khl show ?thesis by (auto simp: hl_def)
  qed
  from 1 2 3 4 show ?thesis
    unfolding cols_def by blast
qed


text \<open>
  At the upsert example of the specification: the sheet has the column \<open>Notes\<close>,
  which the batch does not write; the row of MSFT keeps its note, the row appended for
  AAPL has a blank note and its ticker.
\<close>

lemma upsertByKey_frame_example:
  "metricsBatch \<noteq> []
   \<and> readAll metricsSheet = [[Str ''Ticker'', Str ''Notes'', Str ''OpPS_Latest''],
                              [Str ''MSFT'', Str ''watch'', Num ''0.4'']]
   \<and> fst (upsertHeader metricsSheet ''Ticker'' [''Ticker'', ''OpPS_Latest''] True)
       = [''Ticker'', ''Notes'', ''OpPS_Latest'']
   \<and> snd (upsertHeader metricsSheet ''Ticker'' [''Ticker'', ''OpPS_Latest''] True) ''Ticker''
       = Some 0
   \<and> \<not> writtenColumn (snd (upsertHeader metricsSheet ''Ticker'' [''Ticker'', ''OpPS_Latest''] True))
         (writeList ''Ticker'' [''Ticker'', ''OpPS_Latest'']) 1
   \<and> length (upsertByKey metricsSheet ''Ticker'' [''Ticker'', ''OpPS_Latest''] metricsBatch True) = 3
   \<and> upsertByKey metricsSheet ''Ticker'' [''Ticker'', ''OpPS_Latest''] metricsBatch True ! 1 ! 1
       = Str ''watch''
   \<and> upsertByKey metricsSheet ''Ticker'' [''Ticker'', ''OpPS_Latest''] metricsBatch True ! 2 ! 1
       = blank
   \<and> truthy (upsertByKey metricsSheet ''Ticker'' [''Ticker'', ''OpPS_Latest''] metricsBatch True
               ! 2 ! 0)"
proof -
  let ?cols = "[''Ticker'', ''OpPS_Latest'']"
  let ?uh = "upsertHeader metricsSheet ''Ticker'' ?cols True"
  let ?res = "upsertByKey metricsSheet ''Ticker'' ?cols metricsBatch True"
  have ne: "metricsBatch \<noteq> []"
    by (simp add: metricsBatch_def)
  have ra: "readAll metricsSheet = [[Str ''Ticker'', Str ''Notes'', Str ''OpPS_Latest''],
                              [Str ''MSFT'', Str ''watch'', Num ''0.4'']]"
    by code_simp
  have hd: "fst ?uh = [''Ticker'', ''Notes'', ''OpPS_Latest'']"
    by code_simp
  have k0: "snd ?uh ''Ticker'' = Some 0"
    by code_simp
  have nw: "\<not> writtenColumn (snd ?uh) (writeList ''Ticker'' ?cols) 1"
    by code_simp
  have len: "length ?res = 3"
    by code_simp
  have uh: "?uh = (fst ?uh, snd ?uh)"
    by simp
  have ni: "''Ticker'' \<notin> set inheritedNames"
    by code_simp
  note frame = upsertByKey_frame [OF ne uh ni]
  from frame have "?res ! 1 ! 1 = readAll metricsSheet ! 1 ! 1"
    using nw by (simp add: ra)
  then have 1: "?res ! 1 ! 1 = Str ''watch''"
    by (simp add: ra)
  from frame have 2: "?res ! 2 ! 1 = blank"
    using nw len by (simp add: ra hd)
  from frame have "\<exists>k. snd ?uh ''Ticker'' = Some k \<and> k < length (fst ?uh) \<and> truthy (?res ! 2 ! k)"
    using len by (simp add: ra)
  then have 3: "truthy (?res ! 2 ! 0)"
    using k0 by auto
  from ne ra hd k0 nw len 1 2 3 show ?thesis
    by blast
qed

subsection \<open>Upsert by one key: the shape of the table\<close>

lemma jsSet_length_in: "c < length row \<Longrightarrow> length (jsSet row c v) = length row"
  by (simp add: jsSet_def)

lemma writeCols_width:
  assumes "goodIndex header hi" and "length row = length header"
  shows "length (writeCols hi obj cs row) = length header"
  using assms(2)
proof (induction cs arbitrary: row)
  case Nil
  then show ?case by simp
next
  case (Cons col cs)
  let ?row' = "case hi col of None \<Rightarrow> row
      | Some colIdx \<Rightarrow> if hasOwn obj col then jsSet row colIdx (nullToEmpty (getProp obj col)) else row"
  have "length ?row' = length header"
    using assms(1) Cons.prems by (auto simp: goodIndex_def jsSet_length_in split: option.splits)
  from Cons.IH [OF this] show ?case by simp
qed

text \<open>
  In the loop of \<open>upsertByKey\<close> every row has the width of the header and every row
  index in the map is a row of the table: \<open>setValues\<close> gets rows of the width of its
  range, and the row of a known key exists.
\<close>

lemma setAt_width:
  assumes "\<forall>k. ref = Index k \<longrightarrow> k < length row"
  shows "length (setAt row ref v) = length row"
  using assms by (cases ref) (simp_all add: setAt_def jsSet_length_in)

lemma upsertObject_shape:
  assumes good: "goodIndex header hi" and k: "\<forall>k. ref = Index k \<longrightarrow> k < length header"
    and w: "\<forall>row \<in> set data. length row = length header"
    and m: "\<forall>key r. m key = Some r \<longrightarrow> r < length data"
    and st: "upsertObject (length header) hi keyColumn ref cols obj (data, m) = (data', m')"
  shows "(\<forall>row \<in> set data'. length row = length header)
    \<and> (\<forall>key r. m' key = Some r \<longrightarrow> r < length data')"
proof (cases "keyOf (getProp obj keyColumn) = []")
  case True
  with st w m show ?thesis by (simp add: upsertObject_def)
next
  case False
  define key where "key = keyOf (getProp obj keyColumn)"
  show ?thesis
  proof (cases "m key")
    case None
    let ?new = "writeCols hi obj cols (setAt (replicate (length header) blank) ref (Str key))"
    have d: "data' = data @ [?new]" and m': "m' = m(key \<mapsto> length data)"
      using st None False by (auto simp: upsertObject_def key_def Let_def)
    have "length (setAt (replicate (length header) blank) ref (Str key)) = length header"
      using k by (simp add: setAt_width)
    then have "length ?new = length header"
      using good by (intro writeCols_width)
    with w have 1: "\<forall>row \<in> set data'. length row = length header"
      by (auto simp: d)
    have 2: "\<forall>key r. m' key = Some r \<longrightarrow> r < length data'"
      using m by (auto simp: m' d less_Suc_eq split: if_splits)
    from 1 2 show ?thesis by blast
  next
    case (Some r)
    with m have r: "r < length data" by blast
    let ?row' = "writeCols hi obj cols (data ! r)"
    have d: "data' = data[r := ?row']" and m': "m' = m"
      using st Some False r by (auto simp: upsertObject_def key_def Let_def)
    have "length (data ! r) = length header" using w r by simp
    then have "length ?row' = length header"
      using good by (intro writeCols_width)
    with w have 1: "\<forall>row \<in> set data'. length row = length header"
      unfolding d by (metis insert_iff set_update_subset_insert subsetD)
    have 2: "\<forall>key r. m' key = Some r \<longrightarrow> r < length data'"
      using m by (simp add: m' d)
    from 1 2 show ?thesis by blast
  qed
qed

lemma fold_upsertObject_shape:
  assumes "goodIndex header hi" and "\<forall>k. ref = Index k \<longrightarrow> k < length header"
    and "\<forall>row \<in> set data. length row = length header"
    and "\<forall>key r. m key = Some r \<longrightarrow> r < length data"
  shows "\<forall>row \<in> set (fst (fold (upsertObject (length header) hi keyColumn ref cols) objs (data, m))).
           length row = length header"
  using assms(3,4)
proof (induction objs arbitrary: data m)
  case Nil
  then show ?case by simp
next
  case (Cons obj objs)
  obtain data' m' where st: "upsertObject (length header) hi keyColumn ref cols obj (data, m) = (data', m')"
    by (cases "upsertObject (length header) hi keyColumn ref cols obj (data, m)")
  from upsertObject_shape [OF assms(1,2) Cons.prems st]
  have "\<forall>row \<in> set data'. length row = length header"
    and "\<forall>key r. m' key = Some r \<longrightarrow> r < length data'"
    by blast+
  from Cons.IH [OF this] st show ?case by simp
qed

lemma indexRows_range:
  assumes "\<forall>key r. m key = Some r \<longrightarrow> r < i + length rows"
  shows "\<forall>key r. indexRows ref i rows m key = Some r \<longrightarrow> r < i + length rows"
  using assms
proof (induction rows arbitrary: i m)
  case Nil
  then show ?case by simp
next
  case (Cons row rows)
  let ?m' = "if keyOf (getAt row ref) \<noteq> [] then m(keyOf (getAt row ref) \<mapsto> i) else m"
  have "\<forall>key r. ?m' key = Some r \<longrightarrow> r < Suc i + length rows"
    using Cons.prems by (auto split: if_splits)
  from Cons.IH [OF this] show ?case by (simp add: Let_def)
qed

lemma readAll_width:
  assumes "row \<in> set (readAll sh)"
  shows "length row = length (sheetHeader sh)"
proof -
  from assms have pos: "0 < getLastRow sh"
    by (auto simp: readAll_def Let_def split: if_splits)
  let ?c = "max 1 (getLastColumn sh)"
  have ra: "readAll sh = getValues sh (getLastRow sh) ?c"
    using pos by (simp add: readAll_def Let_def)
  have all: "\<forall>r \<in> set (getValues sh (getLastRow sh) ?c). length r = ?c"
    by (auto simp: getValues_def padTo_def dest!: in_set_takeD)
  have "readAll sh \<noteq> []" using assms by auto
  then have "hd (readAll sh) \<in> set (readAll sh)" by simp
  then have "length (sheetHeader sh) = ?c"
    using all \<open>readAll sh \<noteq> []\<close> by (simp add: sheetHeader_def Let_def readHeader_def ra)
  with all assms show ?thesis by (simp add: ra)
qed

lemma ensureColumn_length: "length (fst hi) \<le> length (fst (ensureColumn col hi))"
  by (cases hi) (simp add: ensureColumn_def)

lemma fold_ensureColumn_length: "length (fst hi) \<le> length (fst (fold ensureColumn cs hi))"
proof (induction cs arbitrary: hi)
  case Nil
  then show ?case by simp
next
  case (Cons c cs)
  have "length (fst hi) \<le> length (fst (ensureColumn c hi))" by (rule ensureColumn_length)
  also have "\<dots> \<le> length (fst (fold ensureColumn cs (ensureColumn c hi)))" by (rule Cons.IH)
  finally show ?case by simp
qed

lemma upsertHeader_length:
  "length (sheetHeader sh) \<le> length (fst (upsertHeader sh keyColumn cols flag))"
proof -
  let ?hi = "(sheetHeader sh, buildHeaderIndex (sheetHeader sh))"
  have 1: "length (sheetHeader sh) \<le> length (fst (ensureColumn keyColumn ?hi))"
    using ensureColumn_length [of ?hi keyColumn] by simp
  also have "\<dots> \<le> length (fst (fold ensureColumn (writeList keyColumn cols) (ensureColumn keyColumn ?hi)))"
    by (rule fold_ensureColumn_length)
  finally show ?thesis using 1
    by (simp add: upsertHeader_def Let_def)
qed

text \<open>
  The table that \<open>upsertByKey\<close> writes back has rows of the width of the header, for
  every key column: \<open>setValues\<close> gets rows of the width of its range.
\<close>

lemma upsertByKey_rows_width:
  assumes "incoming \<noteq> []" and "row \<in> set (upsertByKey sh keyColumn cols incoming flag)"
  shows "length row = length (fst (upsertHeader sh keyColumn cols flag))"
proof -
  let ?uh = "upsertHeader sh keyColumn cols flag"
  let ?hl = "length (fst ?uh)"
  let ?data = "map (padTo ?hl) (readAll sh)"
  let ?ref = "indexGet (snd ?uh) keyColumn"
  have good: "goodIndex (fst ?uh) (snd ?uh)" by (rule upsertHeader_good)
  then have k: "\<forall>k. ?ref = Index k \<longrightarrow> k < ?hl"
    by (simp add: goodIndex_def indexGet_Index_iff)
  have w: "\<forall>r \<in> set ?data. length r = ?hl"
    using readAll_width [of _ sh] upsertHeader_length [of sh keyColumn cols flag]
    by (auto simp: padTo_def)
  have "\<forall>key r. (Map.empty :: string \<rightharpoonup> nat) key = Some r \<longrightarrow> r < 1 + length (tl ?data)"
    by simp
  from indexRows_range [OF this, of ?ref]
  have m: "\<forall>key r. indexRows ?ref 1 (tl ?data) Map.empty key = Some r \<longrightarrow> r < length ?data"
    by (cases "readAll sh") auto
  from fold_upsertObject_shape [OF good k w m, of keyColumn "writeList keyColumn cols" incoming]
    assms show ?thesis
    by (auto simp: upsertByKey_def Let_def)
qed

subsection \<open>Upsert by one key, script version: the frame of the loop\<close>

lemma UL_writeCols_length: "length row \<le> length (UL_writeCols idx obj cs row)"
proof (induction cs arbitrary: row)
  case Nil
  then show ?case by simp
next
  case (Cons col cs)
  let ?row' = "case idx col of None \<Rightarrow> row
      | Some c \<Rightarrow> if hasOwn obj col then jsSet row c (getProp obj col) else row"
  have "length row \<le> length ?row'"
    using jsSet_length [of row] by (auto split: option.splits)
  also have "\<dots> \<le> length (UL_writeCols idx obj cs ?row')"
    by (rule Cons.IH)
  finally show ?case by simp
qed

lemma UL_writeCols_other:
  assumes "\<not> writtenColumn idx cs c" and "c < length row"
  shows "UL_writeCols idx obj cs row ! c = row ! c"
  using assms
proof (induction cs arbitrary: row)
  case Nil
  then show ?case by simp
next
  case (Cons col cs)
  from Cons.prems(1) have nc: "idx col \<noteq> Some c" and rest: "\<not> writtenColumn idx cs c"
    by (simp_all add: writtenColumn_Cons)
  let ?row' = "case idx col of None \<Rightarrow> row
      | Some c \<Rightarrow> if hasOwn obj col then jsSet row c (getProp obj col) else row"
  have len: "c < length ?row'"
    using Cons.prems(2) jsSet_length [of row] by (auto split: option.splits intro: less_le_trans)
  have same: "?row' ! c = row ! c"
    using nc Cons.prems(2) by (auto split: option.splits simp: jsSet_nth_other)
  have "UL_writeCols idx obj (col # cs) row ! c = UL_writeCols idx obj cs ?row' ! c"
    by simp
  also have "\<dots> = ?row' ! c"
    using rest len by (rule Cons.IH)
  finally show ?case using same by simp
qed

lemma UL_writeCols_key:
  assumes "\<forall>col \<in> set cs. idx col = Some k \<longrightarrow> col = keyCol"
    and "populated (getProp obj keyCol)" and "k < length row" and "populated (row ! k)"
  shows "populated (UL_writeCols idx obj cs row ! k)"
  using assms
proof (induction cs arbitrary: row)
  case Nil
  then show ?case by simp
next
  case (Cons col cs)
  let ?row' = "case idx col of None \<Rightarrow> row
      | Some c \<Rightarrow> if hasOwn obj col then jsSet row c (getProp obj col) else row"
  have len: "k < length ?row'"
    using Cons.prems(3) jsSet_length [of row] by (auto split: option.splits intro: less_le_trans)
  have tr: "populated (?row' ! k)"
  proof (cases "idx col = Some k \<and> hasOwn obj col")
    case True
    then have "col = keyCol" using Cons.prems(1) by simp
    with True have "?row' ! k = getProp obj keyCol"
      by (simp add: jsSet_nth_same)
    then show ?thesis using Cons.prems(2) by simp
  next
    case False
    then have "?row' ! k = row ! k"
      using Cons.prems(3) by (auto split: option.splits simp: jsSet_nth_other)
    then show ?thesis using Cons.prems(4) by simp
  qed
  have "UL_writeCols idx obj (col # cs) row ! k = UL_writeCols idx obj cs ?row' ! k"
    by simp
  moreover have "populated (UL_writeCols idx obj cs ?row' ! k)"
    using Cons.prems(1,2) len tr by (intro Cons.IH) auto
  ultimately show ?case by simp
qed

lemma UL_object_frame:
  assumes inv: "frameInv populated hl idx cols k orig grid"
    and kc: "keyCol \<in> set cols" and hk: "idx keyCol = Some k" and khl: "k < hl"
    and inj: "\<forall>col. idx col = Some k \<longrightarrow> col = keyCol"
  shows "frameInv populated hl idx cols k orig (fst (UL_object hl idx keyCol cols obj (grid, m)))"
proof (cases "getProp obj keyCol = Null \<or> getProp obj keyCol = Str []")
  case True
  then show ?thesis using inv by (auto simp: UL_object_def)
next
  case False
  define key where "key = getProp obj keyCol"
  have pk: "populated key" using False by (simp add: key_def populated_def)
  have wk: "writtenColumn idx cols k"
    using kc hk by (auto simp: writtenColumn_iff)
  have inj': "\<forall>col \<in> set cols. idx col = Some k \<longrightarrow> col = keyCol"
    using inj by blast
  show ?thesis
  proof (cases "m (String_js key)")
    case None
    let ?row0 = "jsSet (replicate hl blank) k key"
    let ?new = "UL_writeCols idx obj cols ?row0"
    have l0: "hl \<le> length ?row0" using jsSet_length [of "replicate hl blank" k key] by simp
    have 1: "hl \<le> length ?new"
      using l0 UL_writeCols_length [of ?row0 idx obj cols] by (rule le_trans)
    have 2: "\<forall>c < hl. \<not> writtenColumn idx cols c \<longrightarrow> ?new ! c = blank"
    proof (intro allI impI)
      fix c assume c: "c < hl" and w: "\<not> writtenColumn idx cols c"
      then have "c \<noteq> k" using wk by auto
      have "?new ! c = ?row0 ! c"
        using w c l0 by (intro UL_writeCols_other) auto
      also have "\<dots> = replicate hl blank ! c"
        using \<open>c \<noteq> k\<close> c by (simp add: jsSet_nth_other)
      finally show "?new ! c = blank" using c by simp
    qed
    have 3: "populated (?new ! k)"
      using inj' pk khl l0 by (intro UL_writeCols_key [where keyCol = keyCol])
        (auto simp: jsSet_nth_same key_def)
    have "fst (UL_object hl idx keyCol cols obj (grid, m)) = grid @ [?new]"
      using None False hk by (simp add: UL_object_def indexGet_def setAt_def key_def Let_def)
    then show ?thesis
      using frameInv_append [OF inv 1 2 3] by simp
  next
    case (Some r)
    show ?thesis
    proof (cases "r < length grid")
      case True
      let ?row' = "UL_writeCols idx obj cols (grid ! r)"
      have "frameInv populated hl idx cols k orig (grid[r := ?row'])"
      proof (rule frameInv_update [OF inv True _ _ _ khl])
        show "length (grid ! r) \<le> length ?row'" by (rule UL_writeCols_length)
        show "\<forall>c < length (grid ! r). \<not> writtenColumn idx cols c \<longrightarrow> ?row' ! c = grid ! r ! c"
          by (simp add: UL_writeCols_other)
        show "populated (grid ! r ! k) \<and> k < length (grid ! r) \<longrightarrow> populated (?row' ! k)"
          using inj' pk by (auto simp: key_def intro: UL_writeCols_key [where keyCol = keyCol])
      qed
      moreover have "fst (UL_object hl idx keyCol cols obj (grid, m)) = grid[r := ?row']"
        using Some False True by (simp add: UL_object_def key_def Let_def)
      ultimately show ?thesis by simp
    next
      case nr: False
      have "fst (UL_object hl idx keyCol cols obj (grid, m)) = grid"
        using Some False nr by (simp add: UL_object_def key_def Let_def)
      then show ?thesis using inv by simp
    qed
  qed
qed

lemma fold_UL_object_frame:
  assumes "frameInv populated hl idx cols k orig grid"
    and "keyCol \<in> set cols" and "idx keyCol = Some k" and "k < hl"
    and "\<forall>col. idx col = Some k \<longrightarrow> col = keyCol"
  shows "frameInv populated hl idx cols k orig
           (fst (fold (UL_object hl idx keyCol cols) objs (grid, m)))"
  using assms(1)
proof (induction objs arbitrary: grid m)
  case Nil
  then show ?case by simp
next
  case (Cons obj objs)
  obtain grid' m' where st: "UL_object hl idx keyCol cols obj (grid, m) = (grid', m')"
    by (cases "UL_object hl idx keyCol cols obj (grid, m)")
  from UL_object_frame [OF Cons.prems assms(2-5), of obj m] st
  have "frameInv populated hl idx cols k orig grid'" by simp
  from Cons.IH [OF this] st show ?case by simp
qed

text \<open>
  The loop of \<open>UL_upsertByKey_\<close> keeps the cells that are not written, when the key
  column is in the index and in the write list and no other name has its index (as for
  an index read from a header): the rows of the grid keep their cells in the columns
  that are not written, and an appended row is blank there and has its key.
\<close>

lemma UL_loop_frame:
  assumes "keyCol \<in> set cols" and "idx keyCol = Some k" and "k < hl"
    and "\<forall>col. idx col = Some k \<longrightarrow> col = keyCol"
    and "gridf = fst (fold (UL_object hl idx keyCol cols) incoming (grid, m))"
  shows "length grid \<le> length gridf
    \<and> (\<forall>i c. i < length grid \<and> c < length (grid ! i) \<and> \<not> writtenColumn idx cols c
          \<longrightarrow> gridf ! i ! c = grid ! i ! c)
    \<and> (\<forall>i c. length grid \<le> i \<and> i < length gridf \<and> c < hl \<and> \<not> writtenColumn idx cols c
          \<longrightarrow> gridf ! i ! c = blank)
    \<and> (\<forall>i. length grid \<le> i \<and> i < length gridf \<longrightarrow> populated (gridf ! i ! k))"
proof -
  have "frameInv populated hl idx cols k grid gridf"
    unfolding assms(5)
    by (rule fold_UL_object_frame [OF frameInv_init assms(1-4)])
  then show ?thesis
    unfolding frameInv_def by auto
qed

subsection \<open>Upsert by one key: where the unwritten columns are lost\<close>

text \<open>
  In \<open>upsertByKey\<close> a key column with the name of an inherited property is found in
  the index by the test \<open>keyColumn in headerIndex\<close>, so no key column is added to the
  header, and \<open>newRow[keyColIdx] = key\<close> has a function as the subscript and sets no
  cell: the row appended for the object holds its value and no key.
\<close>

lemma upsertByKey_inherited_key_column:
  "upsertByKey notesSheet ''constructor'' [''constructor'', ''OpPS_Latest'']
     [[(''constructor'', Str ''k1''), (''OpPS_Latest'', Num ''0.3'')]] True
   = [[Str ''Ticker'', Str ''Notes'', Str []],
      [Str ''MSFT'', Str ''watch'', Str []],
      [Str [], Str [], Num ''0.3'']]"
  by code_simp


end
